theory Spec2Isabelle
  imports Complex_Main "HOL-Library.AList"
begin

section \<open>The game server of \<open>server.py\<close>\<close>

text \<open>
  The development embeds class \<open>GameServer\<close>. Python's unbounded integers are \<open>int\<close>,
  its floats are IEEE 754 doubles, each represented by the real number it denotes and
  produced by rounding (\<open>fl\<close> below); the \<open>players\<close> dictionary is an association list in
  insertion order, the order in which Python iterates it.
  The wall clock is an argument (\<open>now\<close>) of the operations that read it, and the
  pseudo-random generator is a finite prefix of its stream of raw draws, kept in the
  state: an operation that needs more draws than the prefix holds does not return
  (\<open>Pending\<close>), which is also the value of a rejection-sampling loop that never ends.
\<close>

subsection \<open>Constants and data\<close>

type_synonym color = "nat \<times> nat \<times> nat"
type_synonym ball = "int \<times> int \<times> color"

definition W :: int where "W = 850"
definition H :: int where "H = 720"
definition START_RADIUS :: real where "START_RADIUS = 7"
definition ROUND_TIME :: int where "ROUND_TIME = 60 * 5"
definition MASS_LOSS_TIME :: int where "MASS_LOSS_TIME = 7"

definition COLORS :: "color list" where
  "COLORS =
    [(255,0,0), (255,128,0), (255,255,0), (128,255,0), (0,255,0),
     (0,255,128), (0,255,255), (0,128,255), (0,0,255), (128,0,255),
     (255,0,255), (255,0,128), (128,128,128), (0,0,0)]"

record player =
  pl_x :: int
  pl_y :: int
  pl_color :: color
  pl_score :: real
  pl_name :: string

text \<open>\<open>game_time\<close> is the string "Starting Soon" until the first update, then a number.\<close>

datatype game_time = Starting_Soon | Seconds int

record server =
  players :: "(nat \<times> player) list"
  balls :: "ball list"
  msg_history :: "string list"
  game_time :: game_time
  start_time :: real
  game_started :: bool
  next_mass_loss_tick :: int
  player_id_counter :: nat
  rand :: "nat list"

datatype exn = ValueError | KeyError | OverflowError

text \<open>
  The outcome of a call that runs on the shared state: it returns a value, or raises
  (the state keeps what was written before the raise), or does not return.
\<close>

datatype 'a result = Returns 'a server | Raises exn server | Pending

type_synonym snapshot = "ball list \<times> (nat \<times> player) list \<times> game_time \<times> string list"

definition init_server :: "nat list \<Rightarrow> server" where
  "init_server draws =
    \<lparr>players = [], balls = [], msg_history = [], game_time = Starting_Soon,
     start_time = 0, game_started = False, next_mass_loss_tick = 1,
     player_id_counter = 0, rand = draws\<rparr>"

subsection \<open>Library functions of Python\<close>

text \<open>\<open>random.randrange(lo, hi)\<close> and \<open>random.choice(xs)\<close>, from one raw draw \<open>r\<close>.\<close>

definition randrange :: "int \<Rightarrow> int \<Rightarrow> nat \<Rightarrow> int" where
  "randrange lo hi r = lo + int r mod (hi - lo)"

definition choice :: "'a list \<Rightarrow> nat \<Rightarrow> 'a" where
  "choice xs r = xs ! (r mod length xs)"

text \<open>\<open>round\<close> of a float: to the nearest integer, a tie to the even one.\<close>

definition py_round :: "real \<Rightarrow> int" where
  "py_round v =
    (let f = \<lfloor>v\<rfloor>; d = v - of_int f
     in if d < 1 / 2 then f else if 1 / 2 < d then f + 1
        else if even f then f else f + 1)"

definition startswith :: "string \<Rightarrow> string \<Rightarrow> bool" where
  "startswith s pre = (take (length pre) s = pre)"

text \<open>
  \<open>str.split()\<close> without arguments cuts at runs of whitespace and yields no empty
  word. The whitespace here is the ASCII one; \<open>int\<close> reads an optional sign and
  decimal digits, single underscores allowed between digits. Characters beyond ASCII
  are outside this model.
\<close>

definition is_space :: "char \<Rightarrow> bool" where
  "is_space c = (let n = (of_char c :: nat) in (9 \<le> n \<and> n \<le> 13) \<or> (28 \<le> n \<and> n \<le> 32))"

fun split_from :: "string \<Rightarrow> string \<Rightarrow> string list" where
  "split_from cur [] = (if cur = [] then [] else [cur])"
| "split_from cur (c # cs) =
    (if is_space c then (if cur = [] then split_from [] cs else cur # split_from [] cs)
     else split_from (cur @ [c]) cs)"

definition py_split :: "string \<Rightarrow> string list" where
  "py_split s = split_from [] s"

definition is_digit :: "char \<Rightarrow> bool" where
  "is_digit c = (let n = (of_char c :: nat) in 48 \<le> n \<and> n \<le> 57)"

definition digit_val :: "char \<Rightarrow> int" where
  "digit_val c = int (of_char c) - 48"

fun digits_value :: "int \<Rightarrow> string \<Rightarrow> int option" where
  "digits_value acc [] = Some acc"
| "digits_value acc [c] = (if is_digit c then Some (acc * 10 + digit_val c) else None)"
| "digits_value acc (c # d # cs) =
    (if is_digit c then digits_value (acc * 10 + digit_val c) (d # cs)
     else if c = CHR ''_'' \<and> is_digit d then digits_value acc (d # cs)
     else None)"

definition unsigned_int :: "string \<Rightarrow> int option" where
  "unsigned_int s =
    (case s of [] \<Rightarrow> None | c # cs \<Rightarrow> if is_digit c then digits_value 0 s else None)"

definition py_int :: "string \<Rightarrow> int option" where
  "py_int s =
    (case s of
       [] \<Rightarrow> None
     | c # cs \<Rightarrow>
         if c = CHR ''-'' then map_option uminus (unsigned_int cs)
         else if c = CHR ''+'' then unsigned_int cs
         else unsigned_int s)"

subsection \<open>Floating-point arithmetic\<close>

text \<open>
  \<open>fl x\<close> is the double nearest to the real \<open>x\<close>, a tie going to the even significand:
  53 significant bits, the exponent of the last bit not below \<open>-1074\<close>. An arithmetic
  operation on floats yields \<open>fl\<close> of the exact result. \<open>fl\<close> itself has no largest value:
  a result of \<open>+\<close>, \<open>*\<close>, \<open>math.sqrt\<close> or \<open>math.hypot\<close> at or beyond \<open>2 ^ 1024\<close> stands
  for Python's \<open>inf\<close> in the comparison that follows and is above every double, as \<open>inf\<close>
  is; a state that holds \<open>inf\<close> as a score (it takes the merge of two scores above
  \<open>10 ^ 153\<close>) is outside the model. The conversion of an \<open>int\<close> and the power \<open>**\<close>
  raise \<open>OverflowError\<close> instead (\<open>None\<close> below).

  \<open>math.hypot\<close> and \<open>**\<close> are taken as correctly rounded. For \<open>**\<close> this is exact
  whenever the square is itself a double, as for the scores of the examples below; for
  other arguments the \<open>pow\<close> of a C library may differ in the last bit.
  The literals \<open>0.95\<close> and \<open>1.15\<close> denote \<open>fl 0.95\<close> and \<open>fl 1.15\<close>; \<open>0.5\<close> and the integers
  met here are doubles. A score that Python holds as an \<open>int\<close> (0, or the floor of a
  float) is represented by the same number. The readings of the clock are reals and
  their difference is exact.
\<close>

definition fl :: "real \<Rightarrow> real" where
  "fl x =
    (if x = 0 then 0
     else
       let e = max \<lfloor>log 2 \<bar>x\<bar>\<rfloor> (- 1022); u = 2 powr of_int (e - 52)
       in of_int (py_round (x / u)) * u)"

definition float_overflow :: "real \<Rightarrow> bool" where
  "float_overflow x \<longleftrightarrow> 2 ^ 1024 \<le> \<bar>fl x\<bar>"

definition float_add :: "real \<Rightarrow> real \<Rightarrow> real" where
  "float_add a b = fl (a + b)"

definition float_mul :: "real \<Rightarrow> real \<Rightarrow> real" where
  "float_mul a b = fl (a * b)"

text \<open>\<open>x ** 2\<close> on a float, and the conversion of an \<open>int\<close> argument to a float.\<close>

definition float_pow2 :: "real \<Rightarrow> real option" where
  "float_pow2 x = (if float_overflow (x * x) then None else Some (fl (x * x)))"

definition float_of_int :: "int \<Rightarrow> real option" where
  "float_of_int n = (if float_overflow (of_int n) then None else Some (fl (of_int n)))"

definition math_sqrt :: "real \<Rightarrow> real" where
  "math_sqrt x = fl (sqrt x)"

text \<open>\<open>math.hypot\<close> of two \<open>int\<close> arguments; \<open>None\<close> is the \<open>OverflowError\<close> of the conversion.\<close>

definition hypot :: "int \<Rightarrow> int \<Rightarrow> real option" where
  "hypot a b =
    (case float_of_int a of
       None \<Rightarrow> None
     | Some x \<Rightarrow>
         (case float_of_int b of
            None \<Rightarrow> None
          | Some y \<Rightarrow> Some (fl (sqrt (x\<^sup>2 + y\<^sup>2)))))"

subsection \<open>Chat log\<close>

definition add_chat_message :: "string \<Rightarrow> server \<Rightarrow> server" where
  "add_chat_message message s =
    (let h = msg_history s @ [message]
     in s\<lparr>msg_history := (if length h > 20 then tl h else h)\<rparr>)"

subsection \<open>Spawn placement\<close>

text \<open>
  The inner \<open>for\<close> loop over the players, with its \<open>break\<close>; \<open>Inl\<close> is the exception that
  \<open>math.hypot\<close> raises.
\<close>

fun is_safe_location :: "int \<Rightarrow> int \<Rightarrow> (nat \<times> player) list \<Rightarrow> exn + bool" where
  "is_safe_location x y [] = Inr True"
| "is_safe_location x y (kp # ps) =
    (case hypot (x - pl_x (snd kp)) (y - pl_y (snd kp)) of
       None \<Rightarrow> Inl OverflowError
     | Some distance \<Rightarrow>
         if distance \<le> float_add START_RADIUS (pl_score (snd kp)) then Inr False
         else is_safe_location x y ps)"

text \<open>
  The \<open>while True\<close> loop of \<open>_get_start_location\<close> and of \<open>_create_balls\<close>: two draws
  for each candidate, the first safe candidate is returned with the draws left.
\<close>

datatype 'a drawn = Drawn 'a "nat list" | Throws exn "nat list" | Exhausted

fun safe_location_loop :: "(nat \<times> player) list \<Rightarrow> nat list \<Rightarrow> (int \<times> int) drawn" where
  "safe_location_loop ps (rx # ry # rs) =
    (let x = randrange 0 W rx; y = randrange 0 H ry
     in case is_safe_location x y ps of
          Inl e \<Rightarrow> Throws e rs
        | Inr safe \<Rightarrow> if safe then Drawn (x, y) rs else safe_location_loop ps rs)"
| "safe_location_loop ps [r] = Exhausted"
| "safe_location_loop ps [] = Exhausted"

definition get_start_location :: "server \<Rightarrow> (int \<times> int) result" where
  "get_start_location s =
    (case safe_location_loop (players s) (rand s) of
       Exhausted \<Rightarrow> Pending
     | Throws e rs \<Rightarrow> Raises e (s\<lparr>rand := rs\<rparr>)
     | Drawn xy rs \<Rightarrow> Returns xy (s\<lparr>rand := rs\<rparr>))"

fun create_balls :: "nat \<Rightarrow> server \<Rightarrow> unit result" where
  "create_balls 0 s = Returns () s"
| "create_balls (Suc n) s =
    (case safe_location_loop (players s) (rand s) of
       Exhausted \<Rightarrow> Pending
     | Throws e rs \<Rightarrow> Raises e (s\<lparr>rand := rs\<rparr>)
     | Drawn xy rs \<Rightarrow>
         (case rs of
            [] \<Rightarrow> Pending
          | rc # rs' \<Rightarrow>
              create_balls n
                (s\<lparr>balls := balls s @ [(fst xy, snd xy, choice COLORS rc)], rand := rs'\<rparr>)))"

subsection \<open>Round clock and mass loss\<close>

definition mass_loss :: "player \<Rightarrow> player" where
  "mass_loss p =
    (if pl_score p > 8 then p\<lparr>pl_score := of_int \<lfloor>float_mul (pl_score p) (fl 0.95)\<rfloor>\<rparr> else p)"

definition update_game_state :: "real \<Rightarrow> server \<Rightarrow> server" where
  "update_game_state now s =
    (if \<not> game_started s then s
     else
       let elapsed_time = now - start_time s;
           t = py_round elapsed_time;
           s1 = s\<lparr>game_time := Seconds t\<rparr>;
           s2 = (if t \<ge> ROUND_TIME then s1\<lparr>game_started := False\<rparr> else s1)
       in if t div MASS_LOSS_TIME = next_mass_loss_tick s2
          then s2\<lparr>next_mass_loss_tick := next_mass_loss_tick s2 + 1,
                  players := map (\<lambda>kp. (fst kp, mass_loss (snd kp))) (players s2)\<rparr>
          else s2)"

subsection \<open>Collisions\<close>

text \<open>
  \<open>list.remove\<close> raises \<open>ValueError\<close> when the element is absent. The first loop runs
  over a copy of the food list and removes from the list itself; \<open>p_score\<close> is the score
  read once at line 133, the increment of line 140 reads the entry itself.
\<close>

fun eat_balls :: "nat \<Rightarrow> int \<Rightarrow> int \<Rightarrow> real \<Rightarrow> ball list \<Rightarrow> server \<Rightarrow> unit result" where
  "eat_balls current_id px py p_score [] s = Returns () s"
| "eat_balls current_id px py p_score (ball # rest) s =
    (case hypot (px - fst ball) (py - fst (snd ball)) of
       None \<Rightarrow> Raises OverflowError s
     | Some distance \<Rightarrow>
         if distance \<le> float_add START_RADIUS p_score
         then
           let s1 = s\<lparr>players :=
                      AList.map_entry current_id
                        (\<lambda>p. p\<lparr>pl_score := float_add (pl_score p) 0.5\<rparr>) (players s)\<rparr>
           in if ball \<in> set (balls s1)
              then eat_balls current_id px py p_score rest (s1\<lparr>balls := remove1 ball (balls s1)\<rparr>)
              else Raises ValueError s1
         else eat_balls current_id px py p_score rest s)"

text \<open>
  The body of the second loop, for one entry of the dictionary. The entry is read
  from the live dictionary; the keys are those the loop runs over, so the lookup
  always finds it, and an absent key is skipped. The distance is computed before the
  test, the two squares before the assignment of line 153.
\<close>

definition eat_player :: "nat \<Rightarrow> int \<Rightarrow> int \<Rightarrow> real \<Rightarrow> nat \<Rightarrow> server \<Rightarrow> unit result" where
  "eat_player current_id px py p_score other_id s =
    (if current_id = other_id then Returns () s
     else
       case map_of (players s) other_id of
         None \<Rightarrow> Returns () s
       | Some other_player \<Rightarrow>
           let opx = pl_x other_player; opy = pl_y other_player;
               op_score = pl_score other_player
           in (case hypot (px - opx) (py - opy) of
                 None \<Rightarrow> Raises OverflowError s
               | Some distance \<Rightarrow>
                   if p_score > float_mul op_score (fl 1.15) \<and>
                      distance < float_add START_RADIUS p_score
                   then
                     (case float_pow2 p_score of
                        None \<Rightarrow> Raises OverflowError s
                      | Some pp \<Rightarrow>
                          (case float_pow2 op_score of
                             None \<Rightarrow> Raises OverflowError s
                           | Some oo \<Rightarrow>
                               let s1 = s\<lparr>players :=
                                          AList.map_entry current_id
                                            (\<lambda>p. p\<lparr>pl_score := math_sqrt (float_add pp oo)\<rparr>)
                                            (players s)\<rparr>;
                                   s2 = s1\<lparr>players :=
                                          AList.map_entry other_id (\<lambda>p. p\<lparr>pl_score := 0\<rparr>)
                                            (players s1)\<rparr>
                               in (case get_start_location s2 of
                                     Returns xy s3 \<Rightarrow>
                                       Returns ()
                                         (s3\<lparr>players :=
                                             AList.map_entry other_id
                                               (\<lambda>p. p\<lparr>pl_x := fst xy, pl_y := snd xy\<rparr>)
                                               (players s3)\<rparr>)
                                   | Raises e s3 \<Rightarrow> Raises e s3
                                   | Pending \<Rightarrow> Pending)))
                   else Returns () s))"

fun eat_players :: "nat \<Rightarrow> int \<Rightarrow> int \<Rightarrow> real \<Rightarrow> nat list \<Rightarrow> server \<Rightarrow> unit result" where
  "eat_players current_id px py p_score [] s = Returns () s"
| "eat_players current_id px py p_score (other_id # rest) s =
    (case eat_player current_id px py p_score other_id s of
       Returns _ s' \<Rightarrow> eat_players current_id px py p_score rest s'
     | Raises e s' \<Rightarrow> Raises e s'
     | Pending \<Rightarrow> Pending)"

definition check_collisions :: "nat \<Rightarrow> server \<Rightarrow> unit result" where
  "check_collisions current_id s =
    (case map_of (players s) current_id of
       None \<Rightarrow> Raises KeyError s
     | Some player \<Rightarrow>
         let px = pl_x player; py = pl_y player; p_score = pl_score player
         in (case eat_balls current_id px py p_score (balls s) s of
               Returns _ s1 \<Rightarrow>
                 eat_players current_id px py p_score (map fst (players s1)) s1
             | Raises e s1 \<Rightarrow> Raises e s1
             | Pending \<Rightarrow> Pending))"

subsection \<open>Connections and sessions\<close>

text \<open>One turn of the accept loop of \<open>start\<close>, at wall-clock time \<open>now\<close>.\<close>

definition accept :: "real \<Rightarrow> server \<Rightarrow> nat \<times> server" where
  "accept now s =
    (let s1 = (if \<not> game_started s then s\<lparr>start_time := now, game_started := True\<rparr> else s);
         current_id = player_id_counter s1
     in (current_id, s1\<lparr>player_id_counter := player_id_counter s1 + 1\<rparr>))"

definition start :: "nat list \<Rightarrow> unit result" where
  "start draws = create_balls 200 (init_server draws)"

text \<open>
  \<open>_handle_client\<close> in three parts: the handshake for a name already received, one
  pass of the communication loop, and the \<open>finally\<close> block. Sending and receiving are
  not modelled; an empty read is the event \<open>Disconnect\<close> below.
\<close>

definition handshake :: "nat \<Rightarrow> string \<Rightarrow> server \<Rightarrow> nat result" where
  "handshake current_id username s =
    (let s1 = add_chat_message (username @ '' CONNECTED'') s
     in case get_start_location s1 of
          Returns start_pos s2 \<Rightarrow>
            Returns current_id
              (s2\<lparr>players :=
                  AList.update current_id
                    \<lparr>pl_x = fst start_pos, pl_y = snd start_pos,
                     pl_color = COLORS ! (current_id mod length COLORS),
                     pl_score = 0, pl_name = username\<rparr>
                    (players s2)\<rparr>)
        | Raises e s2 \<Rightarrow> Raises e s2
        | Pending \<Rightarrow> Pending)"

definition snapshot_of :: "server \<Rightarrow> snapshot" where
  "snapshot_of s = (balls s, players s, game_time s, msg_history s)"

text \<open>Lines 206 and 207: the top-up of the food after a move.\<close>

definition replenish :: "server \<Rightarrow> unit result" where
  "replenish s =
    (if length (balls s) < 150
     then (case rand s of
             [] \<Rightarrow> Pending
           | r # rs \<Rightarrow> create_balls (nat (randrange 50 100 r)) (s\<lparr>rand := rs\<rparr>))
     else Returns () s)"

text \<open>The \<open>move\<close> branch, after \<open>_update_game_state\<close> has run.\<close>

definition move_command :: "nat \<Rightarrow> string \<Rightarrow> server \<Rightarrow> unit result" where
  "move_command current_id command s =
    (case py_split command of
       [_, x, y] \<Rightarrow>
         (case py_int x of
            None \<Rightarrow> Raises ValueError s
          | Some xi \<Rightarrow>
              (case map_of (players s) current_id of
                 None \<Rightarrow> Raises KeyError s
               | Some _ \<Rightarrow>
                   let s1 = s\<lparr>players :=
                              AList.map_entry current_id (\<lambda>p. p\<lparr>pl_x := xi\<rparr>) (players s)\<rparr>
                   in (case py_int y of
                         None \<Rightarrow> Raises ValueError s1
                       | Some yi \<Rightarrow>
                           let s2 = s1\<lparr>players :=
                                      AList.map_entry current_id (\<lambda>p. p\<lparr>pl_y := yi\<rparr>)
                                        (players s1)\<rparr>
                           in (case (if game_started s2 then check_collisions current_id s2
                                     else Returns () s2) of
                                 Returns _ s3 \<Rightarrow> replenish s3
                               | Raises e s3 \<Rightarrow> Raises e s3
                               | Pending \<Rightarrow> Pending))))
     | _ \<Rightarrow> Raises ValueError s)"

definition msg_command :: "nat \<Rightarrow> string \<Rightarrow> server \<Rightarrow> unit result" where
  "msg_command current_id command s =
    (case map_of (players s) current_id of
       None \<Rightarrow> Raises KeyError s
     | Some p \<Rightarrow> Returns () (add_chat_message (pl_name p @ '': '' @ drop 4 command) s))"

text \<open>One pass of the communication loop for a decoded command string.\<close>

definition handle_command :: "real \<Rightarrow> nat \<Rightarrow> string \<Rightarrow> server \<Rightarrow> snapshot result" where
  "handle_command now current_id command s =
    (let s0 = update_game_state now s
     in case (if startswith command ''move'' then move_command current_id command s0
              else if startswith command ''msg'' then msg_command current_id command s0
              else Returns () s0) of
          Returns _ s' \<Rightarrow> Returns (snapshot_of s') s'
        | Raises e s' \<Rightarrow> Raises e s'
        | Pending \<Rightarrow> Pending)"

text \<open>The \<open>finally\<close> block of \<open>_handle_client\<close>.\<close>

definition cleanup :: "nat \<Rightarrow> server \<Rightarrow> server" where
  "cleanup current_id s =
    (case map_of (players s) current_id of
       None \<Rightarrow> s
     | Some p \<Rightarrow>
         let s1 = add_chat_message (pl_name p @ '' DISCONNECTED'') s
         in s1\<lparr>players := AList.delete current_id (players s1)\<rparr>)"

text \<open>
  The server as a transition system. The lock makes each of these steps atomic; a
  raise inside a session ends it through \<open>cleanup\<close>, and a step that does not return
  keeps the lock for ever.
\<close>

datatype event =
  Accept real
  | Handshake nat string
  | Command real nat string
  | Disconnect nat

fun step :: "event \<Rightarrow> server \<Rightarrow> server option" where
  "step (Accept now) s = Some (snd (accept now s))"
| "step (Handshake current_id username) s =
    (case handshake current_id username s of
       Returns _ s' \<Rightarrow> Some s'
     | Raises e s' \<Rightarrow> Some (cleanup current_id s')
     | Pending \<Rightarrow> None)"
| "step (Command now current_id command) s =
    (case handle_command now current_id command s of
       Returns _ s' \<Rightarrow> Some s'
     | Raises e s' \<Rightarrow> Some (cleanup current_id s')
     | Pending \<Rightarrow> None)"
| "step (Disconnect current_id) s = Some (cleanup current_id s)"

fun run :: "event list \<Rightarrow> server \<Rightarrow> server option" where
  "run [] s = Some s"
| "run (e # es) s = (case step e s of None \<Rightarrow> None | Some s' \<Rightarrow> run es s')"

subsection \<open>Notions used in the proofs\<close>

text \<open>
  \<open>after P r\<close>: the state a call leaves behind, whether it returned or raised,
  satisfies \<open>P\<close>. \<open>frame s s'\<close>: the two states agree outside the players, the food
  and the random draws.
\<close>

definition after :: "(server \<Rightarrow> bool) \<Rightarrow> 'a result \<Rightarrow> bool" where
  "after P r = (case r of Returns _ s \<Rightarrow> P s | Raises _ s \<Rightarrow> P s | Pending \<Rightarrow> True)"

definition frame :: "server \<Rightarrow> server \<Rightarrow> bool" where
  "frame s s' \<longleftrightarrow> msg_history s' = msg_history s \<and> game_time s' = game_time s \<and>
     start_time s' = start_time s \<and> game_started s' = game_started s \<and>
     next_mass_loss_tick s' = next_mass_loss_tick s \<and> player_id_counter s' = player_id_counter s"

text \<open>
  \<open>reach px py p_score ball\<close> is the test of line 139 as the code evaluates it; \<open>None\<close>
  when \<open>math.hypot\<close> raises. \<open>grow n v\<close> is the score \<open>v\<close> after \<open>n\<close> times \<open>+= 0.5\<close>.
\<close>

definition reach :: "int \<Rightarrow> int \<Rightarrow> real \<Rightarrow> ball \<Rightarrow> bool option" where
  "reach px py p_score ball =
     map_option (\<lambda>distance. distance \<le> float_add START_RADIUS p_score)
       (hypot (px - fst ball) (py - fst (snd ball)))"

definition grow :: "nat \<Rightarrow> real \<Rightarrow> real" where
  "grow n v = ((\<lambda>v. float_add v 0.5) ^^ n) v"

text \<open>The state between the two loops of \<open>_check_collisions\<close>.\<close>

definition after_food :: "nat \<Rightarrow> player \<Rightarrow> server \<Rightarrow> server" where
  "after_food c p s =
     s\<lparr>players := AList.map_entry c
          (\<lambda>q. q\<lparr>pl_score :=
             grow (length (filter (\<lambda>b. reach (pl_x p) (pl_y p) (pl_score p) b = Some True) (balls s)))
               (pl_score q)\<rparr>)
          (players s),
       balls := filter (\<lambda>b. reach (pl_x p) (pl_y p) (pl_score p) b = Some False) (balls s)\<rparr>"

definition in_world :: "int \<Rightarrow> int \<Rightarrow> bool" where
  "in_world x y \<longleftrightarrow> 0 \<le> x \<and> x < W \<and> 0 \<le> y \<and> y < H"

text \<open>
  What the player loop of the resolver can do to an entry other than the acting one:
  nothing, or reset the score and move the player to a point of the world.
\<close>

definition kept_or_moved :: "player \<Rightarrow> player \<Rightarrow> bool" where
  "kept_or_moved other other' \<longleftrightarrow>
     other' = other \<or>
     (other' = other\<lparr>pl_score := 0, pl_x := pl_x other', pl_y := pl_y other'\<rparr> \<and>
      in_world (pl_x other') (pl_y other'))"

text \<open>
  Raw draws: a candidate position takes two, a food item three more after the
  candidates that were rejected for it.
\<close>

definition candidate :: "nat \<times> nat \<Rightarrow> int \<times> int" where
  "candidate c = (randrange 0 W (fst c), randrange 0 H (snd c))"

definition safe_at :: "(nat \<times> player) list \<Rightarrow> nat \<times> nat \<Rightarrow> exn + bool" where
  "safe_at ps c = is_safe_location (fst (candidate c)) (snd (candidate c)) ps"

definition pairs :: "(nat \<times> nat) list \<Rightarrow> nat list" where
  "pairs cs = concat (map (\<lambda>c. [fst c, snd c]) cs)"

definition rejects :: "(nat \<times> player) list \<Rightarrow> (nat \<times> nat) list \<Rightarrow> bool" where
  "rejects ps cs = list_all (\<lambda>c. safe_at ps c = Inr False) cs"





text \<open>Concrete worlds used to run the server.\<close>

definition red :: color where "red = (255, 0, 0)"

definition mk_player :: "int \<Rightarrow> int \<Rightarrow> real \<Rightarrow> string \<Rightarrow> player" where
  "mk_player x y sc n = \<lparr>pl_x = x, pl_y = y, pl_color = red, pl_score = sc, pl_name = n\<rparr>"

definition world :: "(nat \<times> player) list \<Rightarrow> ball list \<Rightarrow> nat list \<Rightarrow> server" where
  "world ps bs draws = (init_server draws)\<lparr>players := ps, balls := bs, game_started := True\<rparr>"

text \<open>The acting player's entry after the two assignments of lines 200 and 201.\<close>

definition moved :: "nat \<Rightarrow> int \<Rightarrow> int \<Rightarrow> server \<Rightarrow> server" where
  "moved c x y s =
     s\<lparr>players := AList.map_entry c (\<lambda>p. p\<lparr>pl_y := y\<rparr>)
                    (AList.map_entry c (\<lambda>p. p\<lparr>pl_x := x\<rparr>) (players s))\<rparr>"

text \<open>A round in progress since time 0, with one player of score 100 and no decay yet.\<close>

definition heavy :: server where
  "heavy = world [(0, mk_player 100 100 100 ''a'')] [] []"

text \<open>
  A server whose round ran out: the world at start-up (151 food items), the state after
  the first player's move at 300 s, and the state after a second player connected at
  301 s and moved at 302 s.
\<close>

definition fresh_world :: server where
  "fresh_world =
     (init_server [400, 400, 100, 100])\<lparr>balls := (10, 10, red) # replicate 150 (800, 700, red)\<rparr>"

definition expired_world :: server where
  "expired_world =
     \<lparr>players = [(0, \<lparr>pl_x = 400, pl_y = 400, pl_color = (255, 0, 0), pl_score = 0, pl_name = ''a''\<rparr>)],
      balls = (10, 10, red) # replicate 150 (800, 700, red),
      msg_history = [''a CONNECTED''], game_time = Seconds 300, start_time = 0,
      game_started = False, next_mass_loss_tick = 1, player_id_counter = 1,
      rand = [100, 100]\<rparr>"

definition restarted_world :: server where
  "restarted_world =
     \<lparr>players = [(0, \<lparr>pl_x = 400, pl_y = 400, pl_color = (255, 0, 0), pl_score = 0, pl_name = ''a''\<rparr>),
                 (1, \<lparr>pl_x = 10, pl_y = 10, pl_color = (255, 128, 0), pl_score = 0.5, pl_name = ''b''\<rparr>)],
      balls = replicate 150 (800, 700, red),
      msg_history = [''a CONNECTED'', ''b CONNECTED''], game_time = Seconds 1, start_time = 301,
      game_started = True, next_mass_loss_tick = 1, player_id_counter = 2,
      rand = []\<rparr>"

definition scores_nonneg :: "server \<Rightarrow> bool" where
  "scores_nonneg s = list_all (\<lambda>kp. 0 \<le> pl_score (snd kp)) (players s)"


text \<open>
  The margin the specification asks for: a player's disc, of radius \<open>START_RADIUS\<close> plus
  the score, lies inside the world.
\<close>

definition within_margin :: "player \<Rightarrow> bool" where
  "within_margin p \<longleftrightarrow>
     START_RADIUS + pl_score p \<le> real_of_int (pl_x p) \<and>
     real_of_int (pl_x p) \<le> real_of_int W - (START_RADIUS + pl_score p) \<and>
     START_RADIUS + pl_score p \<le> real_of_int (pl_y p) \<and>
     real_of_int (pl_y p) \<le> real_of_int H - (START_RADIUS + pl_score p)"

text \<open>Worlds in which players stand at, or are sent to, the corner (0, 0).\<close>

definition corner_spawn :: server where
  "corner_spawn =
     \<lparr>players = [(0, \<lparr>pl_x = 0, pl_y = 0, pl_color = (255, 0, 0), pl_score = 0, pl_name = ''a''\<rparr>)],
      balls = [], msg_history = [''a CONNECTED''], game_time = Starting_Soon, start_time = 0,
      game_started = False, next_mass_loss_tick = 1, player_id_counter = 0, rand = []\<rparr>"

definition edge_before :: server where
  "edge_before = world [(0, mk_player 27 100 20 ''a''), (1, mk_player 32 100 10 ''b'')] [] [0, 0]"

definition edge_after :: server where
  "edge_after =
     world [(0, mk_player 27 100 (fl (sqrt 500)) ''a''), (1, mk_player 0 0 0 ''b'')] [] []"

text \<open>A second player connects while the first stands at the corner; the first candidate
  drawn is the corner itself.\<close>

definition crowded :: server where
  "crowded = corner_spawn\<lparr>rand := [0, 0, 400, 400]\<rparr>"

definition crowded_after :: server where
  "crowded_after =
     \<lparr>players = [(0, \<lparr>pl_x = 0, pl_y = 0, pl_color = (255, 0, 0), pl_score = 0, pl_name = ''a''\<rparr>),
                 (1, \<lparr>pl_x = 400, pl_y = 400, pl_color = (255, 128, 0), pl_score = 0, pl_name = ''b''\<rparr>)],
      balls = [], msg_history = [''a CONNECTED'', ''b CONNECTED''], game_time = Starting_Soon,
      start_time = 0, game_started = False, next_mass_loss_tick = 1, player_id_counter = 0,
      rand = []\<rparr>"

text \<open>
  Worlds in which the acting player, key 0, moves from (90, 100) to (100, 100) while the
  round is active, with other players at distance 5 from that point and 150 food items out of
  reach: \<open>duel\<close> (score 20, another player of score 10, the example of the
  specification), \<open>feast\<close> (score 40, others of score 30 and 9), \<open>banquet\<close> (score 24, others of
  score 18, 10 and 21) and \<open>lunch\<close> (score 40, two food items at the point, another player
  of score 30). The draws are those of the relocations.
\<close>

definition duel :: server where
  "duel =
     world [(0, mk_player 90 100 20 ''a''), (1, mk_player 105 100 10 ''b'')]
       (replicate 150 (400, 500, red)) [400, 500]"

definition duel_after :: server where
  "duel_after =
     (world [(0, mk_player 100 100 (fl (sqrt 500)) ''a''), (1, mk_player 400 500 0 ''b'')]
        (replicate 150 (400, 500, red)) [])\<lparr>game_time := Seconds 1\<rparr>"

definition feast :: server where
  "feast =
     world [(0, mk_player 90 100 40 ''a''), (1, mk_player 103 104 30 ''b''),
            (2, mk_player 103 104 9 ''c'')]
       (replicate 150 (400, 500, red)) [400, 500, 409, 512]"

definition feast_after :: server where
  "feast_after =
     (world [(0, mk_player 100 100 41 ''a''), (1, mk_player 400 500 0 ''b''),
             (2, mk_player 409 512 0 ''c'')]
        (replicate 150 (400, 500, red)) [])\<lparr>game_time := Seconds 1\<rparr>"

definition banquet :: server where
  "banquet =
     world [(0, mk_player 90 100 24 ''a''), (1, mk_player 103 104 18 ''b''),
            (2, mk_player 103 104 10 ''c''), (3, mk_player 103 104 21 ''d'')]
       (replicate 150 (400, 500, red)) [400, 500, 409, 512]"

definition banquet_after :: server where
  "banquet_after =
     (world [(0, mk_player 100 100 26 ''a''), (1, mk_player 400 500 0 ''b''),
             (2, mk_player 409 512 0 ''c''), (3, mk_player 103 104 21 ''d'')]
        (replicate 150 (400, 500, red)) [])\<lparr>game_time := Seconds 1\<rparr>"

definition lunch :: server where
  "lunch =
     world [(0, mk_player 90 100 40 ''a''), (1, mk_player 103 104 30 ''b'')]
       ((100, 100, red) # (100, 100, red) # replicate 150 (400, 500, red)) [400, 500]"

definition lunch_after :: server where
  "lunch_after =
     (world [(0, mk_player 100 100 50 ''a''), (1, mk_player 400 500 0 ''b'')]
        (replicate 150 (400, 500, red)) [])\<lparr>game_time := Seconds 1\<rparr>"

section \<open>Properties\<close>

subsection \<open>Rounding\<close>

lemma py_round_of_int [simp]: "py_round (of_int n) = n"
  by (simp add: py_round_def)

lemma py_round_ge: "of_int i \<le> v \<Longrightarrow> i \<le> py_round v"
proof -
  assume "of_int i \<le> v"
  then have "i \<le> \<lfloor>v\<rfloor>" by (simp add: le_floor_iff)
  then show ?thesis by (simp add: py_round_def Let_def)
qed

lemma py_round_le: "v \<le> of_int i \<Longrightarrow> py_round v \<le> i"
proof (cases "v = of_int i")
  case True then show ?thesis by simp
next
  case False
  assume "v \<le> of_int i"
  with False have "v < of_int i" by simp
  then have "\<lfloor>v\<rfloor> < i" by (simp add: floor_less_iff)
  then show ?thesis by (simp add: py_round_def Let_def)
qed

lemma fl_0 [simp]: "fl 0 = 0" by (simp add: fl_def)

lemma fl_nonneg: "0 \<le> x \<Longrightarrow> 0 \<le> fl x"
proof (cases "x = 0")
  case True then show ?thesis by simp
next
  case False
  assume "0 \<le> x"
  define u :: real where "u = 2 powr of_int (max \<lfloor>log 2 \<bar>x\<bar>\<rfloor> (- 1022) - 52)"
  have u: "0 < u" by (simp add: u_def)
  have "0 \<le> x / u" using \<open>0 \<le> x\<close> u by simp
  then have "0 \<le> py_round (x / u)" using py_round_ge[of 0 "x / u"] by simp
  then have "0 \<le> of_int (py_round (x / u)) * u" using u by simp
  then show ?thesis using False by (simp add: fl_def Let_def u_def)
qed

text \<open>A number with at most 53 significant bits and an exponent in range is a double.\<close>

lemma fl_dyadic:
  assumes "\<bar>n\<bar> < 2 ^ 53" and "- 1074 \<le> k"
  shows "fl (of_int n * 2 powr of_int k) = of_int n * 2 powr of_int k"
proof (cases "n = 0")
  case True then show ?thesis by simp
next
  case False
  let ?x = "of_int n * 2 powr of_int k :: real"
  have x0: "?x \<noteq> 0" using False by simp
  have an: "0 < \<bar>real_of_int n\<bar>" using False by simp
  have "\<bar>real_of_int n\<bar> < 2 ^ 53" using assms(1) by (metis of_int_abs of_int_less_numeral_power_cancel_iff)
  then have "log 2 \<bar>real_of_int n\<bar> < 53"
    using an by (simp add: log_less_iff powr_realpow flip: powr_realpow)
  then have fl53: "\<lfloor>log 2 \<bar>real_of_int n\<bar>\<rfloor> \<le> 52" by (simp add: floor_le_iff)
  have "\<bar>?x\<bar> = \<bar>real_of_int n\<bar> * 2 powr of_int k" by (simp add: abs_mult)
  then have "log 2 \<bar>?x\<bar> = log 2 \<bar>real_of_int n\<bar> + of_int k"
    using an by (simp add: log_mult log_powr)
  then have "\<lfloor>log 2 \<bar>?x\<bar>\<rfloor> = \<lfloor>log 2 \<bar>real_of_int n\<bar>\<rfloor> + k" by simp
  then have e: "max \<lfloor>log 2 \<bar>?x\<bar>\<rfloor> (- 1022) - 52 \<le> k" using fl53 assms(2) by linarith
  define q :: int where "q = max \<lfloor>log 2 \<bar>?x\<bar>\<rfloor> (- 1022) - 52"
  have qk: "q \<le> k" using e by (simp add: q_def)
  have "?x / 2 powr of_int q = of_int n * 2 powr (of_int k - of_int q)"
    by (simp add: powr_diff)
  also have "of_int k - of_int q = real (nat (k - q))" using qk by simp
  also have "of_int n * 2 powr real (nat (k - q)) = of_int (n * 2 ^ nat (k - q))"
    by (simp add: powr_realpow)
  finally have "py_round (?x / 2 powr of_int q) = n * 2 ^ nat (k - q)" by (simp only: py_round_of_int)
  then have "of_int (py_round (?x / 2 powr of_int q)) * 2 powr of_int q
      = of_int n * (2 powr real (nat (k - q)) * 2 powr of_int q)"
    by (simp add: powr_realpow)
  also have "2 powr real (nat (k - q)) * 2 powr of_int q = (2::real) powr of_int k"
    using qk by (simp flip: powr_add)
  finally show ?thesis using x0 unfolding fl_def Let_def q_def by simp
qed

lemma fl_of_int: "\<bar>n\<bar> < 2 ^ 53 \<Longrightarrow> fl (of_int n) = of_int n"
  using fl_dyadic[of n 0] by simp

lemma fl_half: "\<bar>n\<bar> < 2 ^ 53 \<Longrightarrow> fl (of_int n / 2) = of_int n / 2"
  using fl_dyadic[of n "- 1"] by (simp add: powr_minus)


text \<open>Rounding does not cross a number of the grid that \<open>x\<close> is rounded to.\<close>

lemma fl_grid_le:
  assumes "x \<noteq> 0" and "q = max \<lfloor>log 2 \<bar>x\<bar>\<rfloor> (- 1022) - 52"
    and "x \<le> of_int m * 2 powr of_int q"
  shows "fl x \<le> of_int m * 2 powr of_int q"
proof -
  have u: "(0::real) < 2 powr of_int q" by simp
  have "x / 2 powr of_int q \<le> of_int m" using assms(3) u by (simp add: divide_le_eq)
  then have "py_round (x / 2 powr of_int q) \<le> m" by (rule py_round_le)
  then have "real_of_int (py_round (x / 2 powr of_int q)) \<le> of_int m" by simp
  then have "real_of_int (py_round (x / 2 powr of_int q)) * 2 powr of_int q \<le> real_of_int m * 2 powr of_int q"
    using u by (simp only: mult_le_cancel_right_pos)
  then show ?thesis using assms(1) unfolding fl_def Let_def assms(2) by simp
qed

lemma fl_grid_ge:
  assumes "x \<noteq> 0" and "q = max \<lfloor>log 2 \<bar>x\<bar>\<rfloor> (- 1022) - 52"
    and "of_int m * 2 powr of_int q \<le> x"
  shows "of_int m * 2 powr of_int q \<le> fl x"
proof -
  have u: "(0::real) < 2 powr of_int q" by simp
  have "of_int m \<le> x / 2 powr of_int q" using assms(3) u by (simp add: le_divide_eq)
  then have "m \<le> py_round (x / 2 powr of_int q)" by (rule py_round_ge)
  then have "real_of_int m \<le> of_int (py_round (x / 2 powr of_int q))" by simp
  then have "real_of_int m * 2 powr of_int q \<le> real_of_int (py_round (x / 2 powr of_int q)) * 2 powr of_int q"
    using u by (simp only: mult_le_cancel_right_pos)
  then show ?thesis using assms(1) unfolding fl_def Let_def assms(2) by simp
qed

lemma int_on_grid:
  assumes "q \<le> 0"
  shows "real_of_int n = of_int (n * 2 ^ nat (- q)) * 2 powr of_int q"
proof -
  have "(2::real) ^ nat (- q) = 2 powr real (nat (- q))" by (simp add: powr_realpow)
  also have "real (nat (- q)) = - of_int q" using assms by simp
  finally have "(2::real) ^ nat (- q) * 2 powr of_int q = 1" by (simp flip: powr_add)
  then show ?thesis by (simp add: mult.assoc)
qed

lemma floor_log2_le:
  assumes "0 < x" and "x < 2 ^ 53"
  shows "\<lfloor>log 2 x\<rfloor> \<le> 52"
proof -
  have "log 2 x < 53" using assms by (simp add: log_less_iff powr_realpow flip: powr_realpow)
  then show ?thesis by (simp add: floor_le_iff)
qed

lemma fl_le_int:
  assumes "0 \<le> x" and "x \<le> of_int n" and "n \<le> 2 ^ 52"
  shows "fl x \<le> of_int n"
proof (cases "x = 0")
  case True then show ?thesis using assms by simp
next
  case False
  define q :: int where "q = max \<lfloor>log 2 \<bar>x\<bar>\<rfloor> (- 1022) - 52"
  have "real_of_int n \<le> 2 ^ 52" using assms(3) by (metis of_int_le_numeral_power_cancel_iff)
  then have "\<bar>x\<bar> < 2 ^ 53" using assms by simp
  then have "\<lfloor>log 2 \<bar>x\<bar>\<rfloor> \<le> 52" using False by (intro floor_log2_le) simp_all
  then have q0: "q \<le> 0" by (simp add: q_def)
  note g = int_on_grid[OF q0, of n, symmetric]
  have "x \<le> of_int (n * 2 ^ nat (- q)) * 2 powr of_int q"
    using assms(2) by (simp only: g)
  from fl_grid_le[OF False q_def this] show ?thesis by (simp only: g)
qed

lemma fl_ge_int:
  assumes "of_int n \<le> x" and "0 < n" and "n \<le> 2 ^ 52"
  shows "of_int n \<le> fl x"
proof -
  have x: "0 < x" "x \<noteq> 0" "\<bar>x\<bar> = x" using assms by simp_all
  define q :: int where "q = max \<lfloor>log 2 \<bar>x\<bar>\<rfloor> (- 1022) - 52"
  show ?thesis
  proof (cases "q \<le> 0")
    case True
    note g = int_on_grid[OF True, of n, symmetric]
    have "of_int (n * 2 ^ nat (- q)) * 2 powr of_int q \<le> x"
      using assms(1) by (simp only: g)
    from fl_grid_ge[OF x(2) q_def this] show ?thesis by (simp only: g)
  next
    case False
    then have L: "q = \<lfloor>log 2 x\<rfloor> - 52" "52 < \<lfloor>log 2 x\<rfloor>" using x by (simp_all add: q_def max_def split: if_splits)
    have "of_int \<lfloor>log 2 x\<rfloor> \<le> log 2 x" by simp
    then have "2 powr of_int \<lfloor>log 2 x\<rfloor> \<le> 2 powr log 2 x" by (intro powr_mono) simp_all
    then have "2 powr of_int \<lfloor>log 2 x\<rfloor> \<le> x" using x(1) by simp
    moreover have "(2::real) powr of_int \<lfloor>log 2 x\<rfloor> = of_int (2 ^ 52) * 2 powr of_int q"
    proof -
      have "(2::real) powr of_int \<lfloor>log 2 x\<rfloor> = 2 powr (52 + of_int q)" by (simp add: L(1))
      also have "\<dots> = 2 powr 52 * 2 powr of_int q" by (simp only: powr_add)
      finally show ?thesis by simp
    qed
    ultimately have b: "of_int (2 ^ 52) * 2 powr of_int q \<le> x" by simp
    have "1 \<le> q" using False by simp
    then have "(2::real) powr 0 \<le> 2 powr of_int q" by (intro powr_mono) simp_all
    then have "(1::real) \<le> 2 powr of_int q" by simp
    then have "real_of_int (2 ^ 52) * 1 \<le> of_int (2 ^ 52) * 2 powr of_int q"
      by (intro mult_left_mono) simp_all
    moreover have "real_of_int n \<le> of_int (2 ^ 52)" using assms(3) by (simp only: of_int_le_iff)
    ultimately have "real_of_int n \<le> of_int (2 ^ 52) * 2 powr of_int q" by simp
    also have "\<dots> \<le> fl x" using fl_grid_ge[OF x(2) q_def b] .
    finally show ?thesis .
  qed
qed

text \<open>Evaluation of \<open>fl\<close> at a number whose binade is known.\<close>

lemma floor_log2_eq:
  assumes "2 powr of_int k \<le> x" and "x < 2 powr of_int (k + 1)"
  shows "\<lfloor>log 2 x\<rfloor> = k"
proof -
  have "(0::real) < 2 powr of_int k" by simp
  then have x: "0 < x" using assms(1) by linarith
  have "of_int k \<le> log 2 x" using assms(1) x by (simp add: le_log_iff)
  moreover have "log 2 x < of_int k + 1" using assms(2) x by (simp add: log_less_iff)
  ultimately show ?thesis by (simp add: floor_eq_iff)
qed

lemma powr_neg_nat: "(2::real) powr of_int (- int n) = 1 / 2 ^ n"
  by (simp add: powr_minus powr_realpow divide_inverse)

lemma fl_eval_ge1:
  assumes "2 ^ k \<le> x" and "x < 2 * 2 ^ k" and "k \<le> 52"
  shows "fl x = of_int (py_round (x * 2 ^ (52 - k))) / 2 ^ (52 - k)"
proof -
  have "(0::real) < 2 ^ k" by simp
  then have x: "0 < x" using assms(1) by linarith
  have "2 powr of_int (int k) \<le> x" using assms(1) by (simp add: powr_realpow)
  moreover have "x < 2 powr of_int (int k + 1)" using assms(2) by (simp add: powr_realpow powr_add)
  ultimately have L: "\<lfloor>log 2 x\<rfloor> = int k" by (rule floor_log2_eq)
  have e: "max \<lfloor>log 2 \<bar>x\<bar>\<rfloor> (- 1022) - 52 = - int (52 - k)" using x L assms(3) by simp
  note u = powr_neg_nat[of "52 - k"]
  show ?thesis using x unfolding fl_def Let_def e u by simp
qed

lemma fl_eval_lt1:
  assumes "1 \<le> x * 2 ^ k" and "x * 2 ^ k < 2" and "k \<le> 1022"
  shows "fl x = of_int (py_round (x * 2 ^ (52 + k))) / 2 ^ (52 + k)"
proof -
  have p: "(0::real) < 2 ^ k" by simp
  have "0 < x * 2 ^ k" using assms(1) by linarith
  then have x: "0 < x" using p by (simp add: zero_less_mult_iff)
  note pk = powr_neg_nat[of k]
  have "2 powr of_int (- int k) \<le> x" unfolding pk using assms(1) p by (simp add: divide_le_eq)
  moreover have "x < 2 powr of_int (- int k + 1)"
  proof -
    have "(2::real) powr of_int (- int k + 1) = 2 powr 1 * 2 powr of_int (- int k)"
      by (simp only: powr_add[symmetric] of_int_add of_int_1 add.commute)
    then have "(2::real) powr of_int (- int k + 1) = 2 / 2 ^ k" unfolding pk by simp
    then show ?thesis using assms(2) p by (simp add: less_divide_eq)
  qed
  ultimately have L: "\<lfloor>log 2 x\<rfloor> = - int k" by (rule floor_log2_eq)
  have e: "max \<lfloor>log 2 \<bar>x\<bar>\<rfloor> (- 1022) - 52 = - int (52 + k)" using x L assms(3) by simp
  note u = powr_neg_nat[of "52 + k"]
  show ?thesis using x unfolding fl_def Let_def e u by simp
qed

lemma fl_numeral [simp]: "(numeral k :: int) < 2 ^ 53 \<Longrightarrow> fl (numeral k) = numeral k"
  using fl_of_int[of "numeral k"] by simp

lemma fl_1 [simp]: "fl 1 = 1"
  using fl_of_int[of 1] by simp

lemma fl_half_numeral [simp]:
  "(numeral k :: int) < 2 ^ 53 \<Longrightarrow> fl (numeral k / 2) = numeral k / 2"
  using fl_half[of "numeral k"] by simp

lemma fl_half_1 [simp]: "fl (1 / 2) = 1 / 2"
  using fl_half[of 1] by simp

lemma fl_sqrt_exact:
  assumes "0 \<le> c" and "c < 2 ^ 53"
  shows "fl (sqrt (of_int (c * c))) = of_int c"
proof -
  have "sqrt (of_int (c * c)) = real_of_int c" using assms(1) by (simp add: real_sqrt_mult)
  then show ?thesis using fl_of_int[of c] assms by simp
qed

lemma fl_sqrt_ge:
  assumes "0 < n" and "n \<le> 2 ^ 52" and "n * n \<le> N"
  shows "of_int n \<le> fl (sqrt (of_int N))"
proof -
  have "real_of_int (n * n) \<le> of_int N" using assms(3) by (simp only: of_int_le_iff)
  then have "(real_of_int n)\<^sup>2 \<le> of_int N" by (simp add: power2_eq_square)
  then have "real_of_int n \<le> sqrt (of_int N)" by (rule real_le_rsqrt)
  then show ?thesis using assms(1,2) by (rule fl_ge_int)
qed

lemma fl_sqrt_le:
  assumes "0 \<le> n" and "n \<le> 2 ^ 52" and "N \<le> n * n" and "0 \<le> N"
  shows "fl (sqrt (of_int N)) \<le> of_int n"
proof -
  have "real_of_int N \<le> of_int (n * n)" using assms(3) by (simp only: of_int_le_iff)
  then have "real_of_int N \<le> (real_of_int n)\<^sup>2" by (simp add: power2_eq_square)
  then have "sqrt (of_int N) \<le> real_of_int n" using assms(1) by (simp add: real_le_lsqrt)
  then show ?thesis using assms(2,4) by (intro fl_le_int) simp_all
qed

lemma grow_Suc: "grow (Suc n) v = grow n (float_add v 0.5)"
  unfolding grow_def using funpow_swap1[of "\<lambda>v. float_add v 0.5" n v] by simp

text \<open>The doubles that the literals \<open>1.15\<close> and \<open>0.95\<close> denote.\<close>

lemma fl_literals:
  "fl 1.15 = 5179139571476070 / 2 ^ 52" "fl 0.95 = 8556839292003942 / 2 ^ 53"
proof -
  show "fl 1.15 = 5179139571476070 / 2 ^ 52"
    by (subst fl_eval_ge1[of 0]) (simp_all add: py_round_def Let_def)
  show "fl 0.95 = 8556839292003942 / 2 ^ 53"
    by (subst fl_eval_lt1[of _ 1]) (simp_all add: py_round_def Let_def)
qed

text \<open>
  The product that decides a tie of the exact test: 1.15 times 50 is 57.5, but the double
  of \<open>1.15\<close> is below 1.15 and the product rounds to the double below 57.5.
\<close>

lemma ratio_at_tie: "fl (50 * fl 1.15) < 57.5"
  unfolding fl_literals
  by (subst fl_eval_ge1[of 5]) (simp_all add: py_round_def Let_def)

lemma float_of_int_small: "\<bar>n\<bar> < 2 ^ 53 \<Longrightarrow> float_of_int n = Some (of_int n)"
proof -
  assume h: "\<bar>n\<bar> < 2 ^ 53"
  then have "\<bar>real_of_int n\<bar> < 2 ^ 53" by (metis of_int_abs of_int_less_numeral_power_cancel_iff)
  moreover have "(2::real) ^ 53 \<le> 2 ^ 1024" by (rule power_increasing) simp_all
  ultimately have "\<bar>real_of_int n\<bar> < 2 ^ 1024" by linarith
  then show ?thesis using fl_of_int[OF h] by (simp add: float_of_int_def float_overflow_def)
qed

lemma hypot_small:
  "\<bar>a\<bar> < 2 ^ 53 \<Longrightarrow> \<bar>b\<bar> < 2 ^ 53 \<Longrightarrow> hypot a b = Some (fl (sqrt (of_int (a * a + b * b))))"
  by (simp add: hypot_def float_of_int_small power2_eq_square)

lemma float_pow2_small: "\<bar>n\<bar> < 2 ^ 26 \<Longrightarrow> float_pow2 (of_int n) = Some (of_int (n * n))"
proof -
  assume h: "\<bar>n\<bar> < 2 ^ 26"
  have "\<bar>n\<bar> * \<bar>n\<bar> < 2 ^ 26 * 2 ^ 26" using h by (intro mult_strict_mono) simp_all
  then have nn: "\<bar>n * n\<bar> < 2 ^ 53" by (simp add: abs_mult)
  then have "\<bar>real_of_int (n * n)\<bar> < 2 ^ 53" by (metis of_int_abs of_int_less_numeral_power_cancel_iff)
  moreover have "(2::real) ^ 53 \<le> 2 ^ 1024" by (rule power_increasing) simp_all
  ultimately have "\<bar>real_of_int (n * n)\<bar> < 2 ^ 1024" by linarith
  then show ?thesis using fl_of_int[OF nn] by (simp add: float_pow2_def float_overflow_def)
qed

lemma grow_half:
  "0 \<le> k \<Longrightarrow> k + int n < 2 ^ 53 \<Longrightarrow> grow n (of_int k / 2) = of_int (k + int n) / 2"
proof (induction n arbitrary: k)
  case 0
  then show ?case by (simp add: grow_def)
next
  case (Suc n)
  have k1: "\<bar>k + 1\<bar> < 2 ^ 53" using Suc.prems by simp
  have "float_add (of_int k / 2) 0.5 = fl (of_int (k + 1) / 2)"
    by (simp add: float_add_def add_divide_distrib)
  also have "\<dots> = of_int (k + 1) / 2" using k1 by (rule fl_half)
  finally have step: "float_add (of_int k / 2) 0.5 = of_int (k + 1) / 2" .
  have "grow (Suc n) (of_int k / 2) = grow n (float_add (of_int k / 2) 0.5)"
    by (rule grow_Suc)
  also have "\<dots> = grow n (of_int (k + 1) / 2)" by (simp only: step)
  also have "\<dots> = of_int (k + 1 + int n) / 2" using Suc.prems by (intro Suc.IH) simp_all
  finally show ?case by (simp add: add.assoc add.commute)
qed

subsection \<open>What each operation leaves untouched\<close>

lemma after_simps [simp]:
  "after P (Returns v s) = P s" "after P (Raises e s) = P s" "after P Pending = True"
  by (simp_all add: after_def)

lemma after_mono: "after P r \<Longrightarrow> (\<And>s. P s \<Longrightarrow> Q s) \<Longrightarrow> after Q r"
  by (cases r) auto

lemma frame_refl [simp]: "frame s s" by (simp add: frame_def)

lemma frame_trans: "frame s t \<Longrightarrow> frame t u \<Longrightarrow> frame s u" by (simp add: frame_def)

lemma frame_upd [simp]:
  "frame s (t\<lparr>players := ps\<rparr>) = frame s t"
  "frame s (t\<lparr>balls := bs\<rparr>) = frame s t"
  "frame s (t\<lparr>rand := rs\<rparr>) = frame s t"
  "frame (t\<lparr>players := ps\<rparr>) s = frame t s"
  "frame (t\<lparr>balls := bs\<rparr>) s = frame t s"
  "frame (t\<lparr>rand := rs\<rparr>) s = frame t s"
  by (simp_all add: frame_def)

text \<open>The sampling of a start location changes the draws only.\<close>

lemma get_start_location_rand:
  "after (\<lambda>s'. \<exists>rs. s' = s\<lparr>rand := rs\<rparr>) (get_start_location s)"
  by (auto simp: get_start_location_def split: drawn.splits)

lemma frame_get_start_location: "after (frame s) (get_start_location s)"
  using get_start_location_rand[of s] by (rule after_mono) auto

lemma frame_create_balls: "after (frame s) (create_balls n s)"
proof (induction n arbitrary: s)
  case 0 show ?case by simp
next
  case (Suc n)
  show ?case
  proof (cases "safe_location_loop (players s) (rand s)")
    case Exhausted then show ?thesis by simp
  next
    case (Throws e rs) then show ?thesis by simp
  next
    case (Drawn xy rs)
    show ?thesis
    proof (cases rs)
      case Nil then show ?thesis using Drawn by simp
    next
      case (Cons rc rs')
      let ?t = "s\<lparr>balls := balls s @ [(fst xy, snd xy, choice COLORS rc)], rand := rs'\<rparr>"
      have "after (frame ?t) (create_balls n ?t)" by (rule Suc.IH)
      then have "after (frame s) (create_balls n ?t)" by (rule after_mono) simp
      then show ?thesis using Drawn Cons by simp
    qed
  qed
qed

lemma frame_eat_balls: "after (frame s) (eat_balls c px py ps bs s)"
proof (induction bs arbitrary: s)
  case Nil show ?case by simp
next
  case (Cons b bs)
  let ?s1 = "s\<lparr>players := AList.map_entry c (\<lambda>p. p\<lparr>pl_score := float_add (pl_score p) 0.5\<rparr>) (players s)\<rparr>"
  let ?t = "?s1\<lparr>balls := remove1 b (balls ?s1)\<rparr>"
  have "after (frame ?t) (eat_balls c px py ps bs ?t)" by (rule Cons.IH)
  then have 1: "after (frame s) (eat_balls c px py ps bs ?t)" by (rule after_mono) simp
  show ?case using 1 Cons.IH[of s] by (simp add: Let_def split: option.splits)
qed

lemma frame_eat_player: "after (frame s) (eat_player c px py ps k s)"
proof -
  have g: "after (frame s) (get_start_location (s\<lparr>players := qs\<rparr>))" for qs
    using frame_get_start_location[of "s\<lparr>players := qs\<rparr>"] by (rule after_mono) simp
  have w: "after (frame s)
      (case r of Returns xy s3 \<Rightarrow> Returns () (s3\<lparr>players := f xy s3\<rparr>)
       | Raises e s3 \<Rightarrow> Raises e s3 | Pending \<Rightarrow> Pending)"
    if "after (frame s) r" for r :: "(int \<times> int) result" and f
    using that by (cases r) auto
  show ?thesis
    unfolding eat_player_def Let_def
    by (auto split: option.splits intro!: w g)
qed

lemma frame_eat_players: "after (frame s) (eat_players c px py ps ks s)"
proof (induction ks arbitrary: s)
  case Nil show ?case by simp
next
  case (Cons k ks)
  show ?case
  proof (cases "eat_player c px py ps k s")
    case (Returns v t)
    then have st: "frame s t" using frame_eat_player[of s c px py ps k] by simp
    have "after (frame t) (eat_players c px py ps ks t)" by (rule Cons.IH)
    then have "after (frame s) (eat_players c px py ps ks t)"
      by (rule after_mono) (rule frame_trans[OF st])
    then show ?thesis using Returns by simp
  next
    case (Raises e t)
    then show ?thesis using frame_eat_player[of s c px py ps k] by simp
  next
    case Pending then show ?thesis by simp
  qed
qed

lemma frame_check_collisions: "after (frame s) (check_collisions c s)"
proof (cases "map_of (players s) c")
  case None then show ?thesis by (simp add: check_collisions_def)
next
  case (Some p)
  let ?r = "eat_balls c (pl_x p) (pl_y p) (pl_score p) (balls s) s"
  show ?thesis
  proof (cases ?r)
    case (Returns v t)
    then have st: "frame s t" using frame_eat_balls[of s c "pl_x p" "pl_y p" "pl_score p" "balls s"] by simp
    have "after (frame t) (eat_players c (pl_x p) (pl_y p) (pl_score p) (map fst (players t)) t)" by (rule frame_eat_players)
    then have "after (frame s) (eat_players c (pl_x p) (pl_y p) (pl_score p) (map fst (players t)) t)"
      by (rule after_mono) (rule frame_trans[OF st])
    then show ?thesis using Some Returns by (simp add: check_collisions_def)
  next
    case (Raises e t)
    then show ?thesis using Some frame_eat_balls[of s c "pl_x p" "pl_y p" "pl_score p" "balls s"]
      by (simp add: check_collisions_def)
  next
    case Pending then show ?thesis using Some by (simp add: check_collisions_def)
  qed
qed

subsection \<open>Chat log\<close>

lemma add_chat_len: "length (msg_history s) \<le> 20 \<Longrightarrow> length (msg_history (add_chat_message m s)) \<le> 20"
  by (simp add: add_chat_message_def Let_def)

lemma add_chat_below: "length (msg_history s) < 20 \<Longrightarrow> msg_history (add_chat_message m s) = msg_history s @ [m]"
  by (simp add: add_chat_message_def Let_def)

lemma add_chat_full: "length (msg_history s) = 20 \<Longrightarrow> msg_history (add_chat_message m s) = tl (msg_history s) @ [m]"
  by (cases "msg_history s") (simp_all add: add_chat_message_def Let_def)

lemma fold_chat_hist: "length (msg_history s) \<le> 20 \<Longrightarrow>
   msg_history (fold add_chat_message ms s) = drop (length (msg_history s) + length ms - 20) (msg_history s @ ms)"
proof (induction ms arbitrary: s)
  case Nil then show ?case by simp
next
  case (Cons m ms)
  let ?h = "msg_history s"
  let ?s1 = "add_chat_message m s"
  have l: "length (msg_history ?s1) \<le> 20" using Cons.prems by (rule add_chat_len)
  have ih: "msg_history (fold add_chat_message (m # ms) s) = drop (length (msg_history ?s1) + length ms - 20) (msg_history ?s1 @ ms)"
    using Cons.IH[OF l] by simp
  show ?case
  proof (cases "length ?h = 20")
    case True
    then obtain a t where at: "?h = a # t" by (cases ?h) auto
    have h1: "msg_history ?s1 = t @ [m]" using add_chat_full[OF True, of m] at by simp
    have lt: "length t = 19" using True at by simp
    show ?thesis unfolding ih h1 using lt at by (simp add: Suc_diff_le)
  next
    case False
    then have lt: "length ?h < 20" using Cons.prems by simp
    have h1: "msg_history ?s1 = ?h @ [m]" using lt by (rule add_chat_below)
    show ?thesis unfolding ih h1 by simp
  qed
qed

lemma msg_update_game_state [simp]: "msg_history (update_game_state now s) = msg_history s"
  by (simp add: update_game_state_def Let_def)

lemma msg_accept [simp]: "msg_history (snd (accept now s)) = msg_history s"
  by (simp add: accept_def Let_def)

lemma chat_cleanup: "length (msg_history s) \<le> 20 \<Longrightarrow> length (msg_history (cleanup c s)) \<le> 20"
  by (auto simp: cleanup_def Let_def add_chat_len split: option.splits)

lemma frame_replenish: "after (frame s) (replenish s)"
proof -
  have "after (frame s) (create_balls n (s\<lparr>rand := rs\<rparr>))" for n rs
    using frame_create_balls[of "s\<lparr>rand := rs\<rparr>" n] by (rule after_mono) simp
  then show ?thesis by (simp add: replenish_def split: list.splits)
qed

lemma frame_move_command: "after (frame s) (move_command c cmd s)"
proof -
  have cc: "after (frame s) (check_collisions c (s\<lparr>players := ps\<rparr>))" for ps
    using frame_check_collisions[of "s\<lparr>players := ps\<rparr>" c] by (rule after_mono) simp
  have rp: "frame s t \<Longrightarrow> after (frame s) (replenish t)" for t
    using frame_replenish[of t] by (rule after_mono) (rule frame_trans)
  have body: "after (frame s) (case r of Returns _ s3 \<Rightarrow> replenish s3 | Raises e s3 \<Rightarrow> Raises e s3 | Pending \<Rightarrow> Pending)"
    if "after (frame s) r" for r :: "unit result"
    using that rp by (cases r) auto
  show ?thesis
    unfolding move_command_def Let_def
    by (auto split: list.splits option.splits intro!: body cc rp)
qed

lemma chat_handle_command:
  assumes "length (msg_history s) \<le> 20"
  shows "after (\<lambda>s'. length (msg_history s') \<le> 20) (handle_command now c cmd s)"
proof -
  let ?s0 = "update_game_state now s"
  have l0: "length (msg_history ?s0) \<le> 20" using assms by simp
  have mv: "after (\<lambda>s'. length (msg_history s') \<le> 20) (move_command c cmd ?s0)"
    using frame_move_command[of ?s0 c cmd] by (rule after_mono) (use l0 in \<open>simp add: frame_def\<close>)
  have ms: "after (\<lambda>s'. length (msg_history s') \<le> 20) (msg_command c cmd ?s0)"
    using l0 by (auto simp: msg_command_def add_chat_len split: option.splits)
  have wrap: "after P (case r of Returns _ s' \<Rightarrow> Returns (snapshot_of s') s' | Raises e s' \<Rightarrow> Raises e s' | Pending \<Rightarrow> Pending)"
    if "after P r" for r :: "unit result" and P
    using that by (cases r) auto
  show ?thesis
    unfolding handle_command_def Let_def
    by (rule wrap) (use mv ms l0 in auto)
qed

lemma chat_handshake:
  assumes "length (msg_history s) \<le> 20"
  shows "after (\<lambda>s'. length (msg_history s') \<le> 20) (handshake c name s)"
proof -
  let ?s1 = "add_chat_message (name @ '' CONNECTED'') s"
  have "length (msg_history ?s1) \<le> 20" using assms by (rule add_chat_len)
  then show ?thesis
    unfolding handshake_def Let_def
    by (auto simp: get_start_location_def split: drawn.splits)
qed

lemma chat_step:
  assumes "length (msg_history s) \<le> 20" and "step e s = Some s'"
  shows "length (msg_history s') \<le> 20"
proof (cases e)
  case (Accept now)
  then show ?thesis using assms by auto
next
  case (Handshake c name)
  then show ?thesis
    using assms chat_handshake[OF assms(1), of c name]
    by (auto split: result.splits simp: chat_cleanup)
next
  case (Command now c cmd)
  then show ?thesis
    using assms chat_handle_command[OF assms(1), of now c cmd]
    by (auto split: result.splits simp: chat_cleanup)
next
  case (Disconnect c)
  then show ?thesis using assms by (auto simp: chat_cleanup)
qed

lemma chat_run:
  "length (msg_history s) \<le> 20 \<Longrightarrow> run evs s = Some s' \<Longrightarrow> length (msg_history s') \<le> 20"
proof (induction evs arbitrary: s)
  case Nil then show ?case by simp
next
  case (Cons e evs)
  then show ?case by (auto split: option.splits dest: chat_step)
qed

text \<open>
  C7. The chat log never holds more than 20 entries after an append, whether the entry is
  written at a connect, at a disconnect or by a chat intent. An append to a full log
  drops the oldest entry and keeps the others in order; 25 messages in a row leave the
  last 20 of them, in the order they were sent.
\<close>

theorem chat_log_capped:
  assumes "length (msg_history s) \<le> 20"
  shows "length (msg_history (add_chat_message m s)) \<le> 20
       \<and> (length (msg_history s) = 20 \<longrightarrow>
            msg_history (add_chat_message m s) = tl (msg_history s) @ [m])
       \<and> (length ms = 25 \<longrightarrow> msg_history (fold add_chat_message ms s) = drop 5 ms)
       \<and> (run evs s = Some s' \<longrightarrow> length (msg_history s') \<le> 20)"
proof (intro conjI impI)
  show "length (msg_history (add_chat_message m s)) \<le> 20"
    using assms by (rule add_chat_len)
  show "msg_history (add_chat_message m s) = tl (msg_history s) @ [m]"
    if "length (msg_history s) = 20" using that by (rule add_chat_full)
  show "msg_history (fold add_chat_message ms s) = drop 5 ms" if "length ms = 25"
    using fold_chat_hist[OF assms, of ms] that by simp
  show "length (msg_history s') \<le> 20" if "run evs s = Some s'"
    using assms that by (rule chat_run)
qed

theorem chat_log_capped_witness:
  "length (msg_history ((init_server [])\<lparr>msg_history := replicate 20 ''old''\<rparr>)) = 20
   \<and> length (map (\<lambda>n. replicate n CHR ''a'') [0..<25]) = 25
   \<and> run [Disconnect 0] ((init_server [])\<lparr>msg_history := replicate 20 ''old''\<rparr>)
       = Some ((init_server [])\<lparr>msg_history := replicate 20 ''old''\<rparr>)
   \<and> msg_history (add_chat_message ''new''
         ((init_server [])\<lparr>msg_history := replicate 20 ''old''\<rparr>))
       = replicate 19 ''old'' @ [''new'']
   \<and> msg_history (fold add_chat_message (map (\<lambda>n. replicate n CHR ''a'') [0..<25])
         ((init_server [])\<lparr>msg_history := replicate 20 ''old''\<rparr>))
       = drop 5 (map (\<lambda>n. replicate n CHR ''a'') [0..<25])"
proof -
  let ?s = "(init_server [])\<lparr>msg_history := replicate 20 ''old''\<rparr>"
  let ?ms = "map (\<lambda>n. replicate n CHR ''a'') [0..<25]"
  have h: "length (msg_history ?s) \<le> 20" by simp
  have r: "run [Disconnect 0] ?s = Some ?s" by (simp add: cleanup_def init_server_def)
  have t: "tl (replicate 20 ''old'') = replicate 19 ''old''"
    by (simp add: numeral_eq_Suc)
  show ?thesis
    using chat_log_capped[OF h, of "''new''" ?ms "[Disconnect 0]" ?s] r t by simp
qed

subsection \<open>Spawn placement\<close>

lemma randrange_bounds: "lo < hi \<Longrightarrow> lo \<le> randrange lo hi r \<and> randrange lo hi r < hi"
proof -
  assume "lo < hi"
  then have "0 < hi - lo" by simp
  then have "0 \<le> int r mod (hi - lo) \<and> int r mod (hi - lo) < hi - lo"
    by (simp add: pos_mod_bound)
  then show ?thesis by (simp add: randrange_def)
qed

lemma candidate_in_world: "in_world (randrange 0 W rx) (randrange 0 H ry)"
  using randrange_bounds[of 0 W rx] randrange_bounds[of 0 H ry]
  by (simp add: in_world_def W_def H_def)

lemma safe_location_loop_sound:
  "safe_location_loop ps draws = Drawn (x, y) rs \<Longrightarrow>
     is_safe_location x y ps = Inr True \<and> in_world x y"
proof (induction ps draws rule: safe_location_loop.induct)
  case (1 ps rx ry rs')
  show ?case
  proof (cases "is_safe_location (randrange 0 W rx) (randrange 0 H ry) ps")
    case (Inl e)
    then show ?thesis using "1.prems" by (simp add: Let_def)
  next
    case (Inr safe)
    show ?thesis
    proof (cases safe)
      case True
      then have "x = randrange 0 W rx" "y = randrange 0 H ry" using "1.prems" Inr by (simp_all add: Let_def)
      then show ?thesis using True Inr candidate_in_world[of rx ry] by simp
    next
      case False
      then show ?thesis using 1 Inr by (simp add: Let_def)
    qed
  qed
qed simp_all

text \<open>A location is found safe when every player is farther away than its radius.\<close>

lemma is_safe_location_True:
  "is_safe_location x y ps = Inr True \<longleftrightarrow>
     list_all (\<lambda>kp. case hypot (x - pl_x (snd kp)) (y - pl_y (snd kp)) of
                       None \<Rightarrow> False
                     | Some d \<Rightarrow> float_add START_RADIUS (pl_score (snd kp)) < d) ps"
  by (induction ps) (auto split: option.splits)

subsection \<open>When the sampling loops return\<close>

text \<open>
  The rejection sampling skips the candidates that are not safe and returns at the
  first safe one; it never returns in a world without any safe point.
\<close>

lemma safe_location_loop_accepts:
  "rejects ps cs \<Longrightarrow> safe_at ps c = Inr True \<Longrightarrow>
     safe_location_loop ps (pairs cs @ fst c # snd c # rest) = Drawn (candidate c) rest"
proof (induction cs)
  case Nil
  then show ?case by (simp add: pairs_def safe_at_def candidate_def Let_def)
next
  case (Cons d cs)
  have d: "is_safe_location (randrange 0 W (fst d)) (randrange 0 H (snd d)) ps = Inr False"
    using Cons.prems(1) by (simp add: rejects_def safe_at_def candidate_def)
  have r: "rejects ps cs" using Cons.prems(1) by (simp add: rejects_def)
  have "pairs (d # cs) @ fst c # snd c # rest = fst d # snd d # (pairs cs @ fst c # snd c # rest)"
    by (simp add: pairs_def)
  then show ?case using d Cons.IH[OF r Cons.prems(2)] by (simp add: Let_def)
qed

lemma safe_location_loop_saturated:
  "(\<forall>x y. in_world x y \<longrightarrow> is_safe_location x y ps = Inr False) \<Longrightarrow>
     safe_location_loop ps draws = Exhausted"
proof (induction ps draws rule: safe_location_loop.induct)
  case (1 ps rx ry rs)
  have "is_safe_location (randrange 0 W rx) (randrange 0 H ry) ps = Inr False"
    using "1.prems" candidate_in_world[of rx ry] by blast
  then show ?case using 1 by (auto simp add: Let_def)
qed simp_all

lemma get_start_location_Returns:
  assumes "get_start_location s = Returns xy s'"
  shows "(\<exists>rs. s' = s\<lparr>rand := rs\<rparr>) \<and> is_safe_location (fst xy) (snd xy) (players s) = Inr True \<and>
     in_world (fst xy) (snd xy)"
proof -
  from assms obtain rs where
    l: "safe_location_loop (players s) (rand s) = Drawn (fst xy, snd xy) rs" and s': "s' = s\<lparr>rand := rs\<rparr>"
    by (auto simp: get_start_location_def split: drawn.splits)
  from safe_location_loop_sound[OF l] s' show ?thesis by blast
qed

lemma get_start_location_accepts:
  assumes "rand s = pairs cs @ fst c # snd c # rest"
    and "rejects (players s) cs" and "safe_at (players s) c = Inr True"
  shows "get_start_location s = Returns (candidate c) (s\<lparr>rand := rest\<rparr>)"
  using safe_location_loop_accepts[OF assms(2,3), of rest] assms(1)
  by (simp add: get_start_location_def)

lemma handshake_Returns:
  assumes "handshake c name s = Returns v s'"
  shows "\<exists>p. map_of (players s') c = Some p \<and> in_world (pl_x p) (pl_y p) \<and> pl_score p = 0 \<and>
     is_safe_location (pl_x p) (pl_y p) (players s) = Inr True"
proof -
  let ?s1 = "add_chat_message (name @ '' CONNECTED'') s"
  have ps: "players ?s1 = players s" by (simp add: add_chat_message_def Let_def)
  from assms obtain xy s2 where
    g: "get_start_location ?s1 = Returns xy s2"
    and s': "s' = s2\<lparr>players := AList.update c
          \<lparr>pl_x = fst xy, pl_y = snd xy, pl_color = COLORS ! (c mod length COLORS),
           pl_score = 0, pl_name = name\<rparr> (players s2)\<rparr>"
    by (auto simp: handshake_def Let_def split: result.splits)
  from get_start_location_Returns[OF g] show ?thesis
    by (simp add: s' update_conv' ps)
qed

lemma handshake_accepts:
  assumes "rand s = pairs cs @ fst c # snd c # rest"
    and "rejects (players s) cs" and "safe_at (players s) c = Inr True"
  shows "handshake cid name s =
     Returns cid ((add_chat_message (name @ '' CONNECTED'') s)\<lparr>rand := rest,
        players := AList.update cid
          \<lparr>pl_x = fst (candidate c), pl_y = snd (candidate c),
           pl_color = COLORS ! (cid mod length COLORS), pl_score = 0, pl_name = name\<rparr> (players s)\<rparr>)"
proof -
  let ?s1 = "add_chat_message (name @ '' CONNECTED'') s"
  have "get_start_location ?s1 = Returns (candidate c) (?s1\<lparr>rand := rest\<rparr>)"
    by (rule get_start_location_accepts[of _ cs]) (use assms in \<open>simp_all add: add_chat_message_def Let_def\<close>)
  then show ?thesis by (simp add: handshake_def Let_def add_chat_message_def)
qed

subsection \<open>Food placement\<close>

lemma choice_COLORS: "choice COLORS r \<in> set COLORS"
proof -
  have "r mod length COLORS < length COLORS" by (simp add: COLORS_def)
  then show ?thesis unfolding choice_def by (rule nth_mem)
qed

lemma create_balls_Returns:
  "create_balls n s = Returns () s' \<Longrightarrow>
     \<exists>batch. balls s' = balls s @ batch \<and> length batch = n \<and> players s' = players s \<and>
       frame s s' \<and>
       list_all (\<lambda>b. in_world (fst b) (fst (snd b)) \<and>
                     is_safe_location (fst b) (fst (snd b)) (players s) = Inr True) batch"
proof (induction n arbitrary: s)
  case 0
  then show ?case by simp
next
  case (Suc n)
  from Suc.prems obtain xy rc rs' where
    loop: "safe_location_loop (players s) (rand s) = Drawn xy (rc # rs')"
    and rest: "create_balls n (s\<lparr>balls := balls s @ [(fst xy, snd xy, choice COLORS rc)], rand := rs'\<rparr>) = Returns () s'"
    by (auto split: drawn.splits list.splits)
  from Suc.IH[OF rest] obtain batch where
    b: "balls s' = (balls s @ [(fst xy, snd xy, choice COLORS rc)]) @ batch" "length batch = n"
       "players s' = players s" "frame s s'"
       "list_all (\<lambda>b. in_world (fst b) (fst (snd b)) \<and>
                     is_safe_location (fst b) (fst (snd b)) (players s) = Inr True) batch"
    by auto
  have "safe_location_loop (players s) (rand s) = Drawn (fst xy, snd xy) (rc # rs')" using loop by simp
  from safe_location_loop_sound[OF this]
  have wp: "in_world (fst xy) (snd xy) \<and> is_safe_location (fst xy) (snd xy) (players s) = Inr True"
    by simp
  show ?case
    using b wp by (intro exI[of _ "(fst xy, snd xy, choice COLORS rc) # batch"]) simp
qed


lemma replenish_Returns:
  assumes "replenish s = Returns () s'"
  shows "\<exists>batch. balls s' = balls s @ batch \<and> players s' = players s \<and> frame s s' \<and>
     (if length (balls s) < 150 then 50 \<le> length batch \<and> length batch \<le> 99 else batch = []) \<and>
     list_all (\<lambda>b. in_world (fst b) (fst (snd b)) \<and>
                   is_safe_location (fst b) (fst (snd b)) (players s) = Inr True) batch"
proof (cases "length (balls s) < 150")
  case False
  then show ?thesis using assms by (simp add: replenish_def)
next
  case True
  with assms obtain r rs where
    cb: "create_balls (nat (randrange 50 100 r)) (s\<lparr>rand := rs\<rparr>) = Returns () s'"
    by (auto simp: replenish_def split: list.splits)
  have rr: "50 \<le> randrange 50 100 r \<and> randrange 50 100 r < 100"
    by (rule randrange_bounds) simp
  from create_balls_Returns[OF cb] obtain batch where
    "balls s' = balls s @ batch" "length batch = nat (randrange 50 100 r)"
    "players s' = players s" "frame s s'"
    "list_all (\<lambda>b. in_world (fst b) (fst (snd b)) \<and>
                   is_safe_location (fst b) (fst (snd b)) (players s) = Inr True) batch"
    by auto
  then show ?thesis using True rr by (intro exI[of _ batch]) auto
qed


subsection \<open>Food consumption\<close>

lemma map_entry_comp: "AList.map_entry k g (AList.map_entry k f xs) = AList.map_entry k (g \<circ> f) xs"
  by (induction xs) auto

lemma map_entry_ident: "(\<And>v. f v = v) \<Longrightarrow> AList.map_entry k f xs = xs"
  by (induction xs) auto

lemma map_of_map_entry_same:
  "map_of xs k = Some v \<Longrightarrow> map_of (AList.map_entry k f xs) k = Some (f v)"
  by (simp add: map_of_map_entry)

lemma map_of_map_entry_other:
  "k' \<noteq> k \<Longrightarrow> map_of (AList.map_entry k f xs) k' = map_of xs k'"
  by (simp add: map_of_map_entry)

lemma keys_map_entry [simp]: "map fst (AList.map_entry k f xs) = map fst xs"
  by (induction xs) auto

lemma reach_None: "reach px py ps b = None \<longleftrightarrow> hypot (px - fst b) (py - fst (snd b)) = None"
  by (simp add: reach_def)

lemma reach_Some:
  "hypot (px - fst b) (py - fst (snd b)) = Some d \<Longrightarrow>
     reach px py ps b = Some (d \<le> float_add START_RADIUS ps)"
  by (simp add: reach_def)

lemma eat_balls_Returns_reach:
  "eat_balls c px py ps bs s = Returns () s' \<Longrightarrow> list_all (\<lambda>b. reach px py ps b \<noteq> None) bs"
proof (induction bs arbitrary: s)
  case Nil
  then show ?case by simp
next
  case (Cons b bs)
  from Cons.prems obtain d where d: "hypot (px - fst b) (py - fst (snd b)) = Some d"
    by (auto split: option.splits)
  have b: "reach px py ps b \<noteq> None" using d by (simp add: reach_def)
  from Cons.prems d obtain t where "eat_balls c px py ps bs t = Returns () s'"
    by (auto simp: Let_def split: if_splits)
  from Cons.IH[OF this] b show ?case by simp
qed

lemma eat_balls_filter:
  assumes "balls s = filter (\<lambda>b. reach px py ps b = Some False) pre @ post"
    and "list_all (\<lambda>b. reach px py ps b \<noteq> None) post"
  shows "eat_balls c px py ps post s =
     Returns ()
       (s\<lparr>players := AList.map_entry c
            (\<lambda>q. q\<lparr>pl_score := grow (length (filter (\<lambda>b. reach px py ps b = Some True) post)) (pl_score q)\<rparr>)
            (players s),
          balls := filter (\<lambda>b. reach px py ps b = Some False) (pre @ post)\<rparr>)"
  using assms
proof (induction post arbitrary: s pre)
  case Nil
  have "AList.map_entry c (\<lambda>q. q\<lparr>pl_score := grow 0 (pl_score q)\<rparr>) (players s) = players s"
    by (rule map_entry_ident) (simp add: grow_def)
  then show ?case using Nil by simp
next
  case (Cons b post)
  from Cons.prems(2) obtain d where d: "hypot (px - fst b) (py - fst (snd b)) = Some d"
    by (auto simp: reach_None)
  note rb = reach_Some[OF d, of ps]
  have rest: "list_all (\<lambda>b. reach px py ps b \<noteq> None) post" using Cons.prems(2) by simp
  show ?case
  proof (cases "d \<le> float_add START_RADIUS ps")
    case False
    have "balls s = filter (\<lambda>b. reach px py ps b = Some False) (pre @ [b]) @ post"
      using Cons.prems(1) False rb by simp
    from Cons.IH[OF this rest] show ?thesis using False d rb by simp
  next
    case True
    let ?s1 = "s\<lparr>players := AList.map_entry c (\<lambda>p. p\<lparr>pl_score := float_add (pl_score p) 0.5\<rparr>) (players s)\<rparr>"
    let ?t = "?s1\<lparr>balls := remove1 b (balls ?s1)\<rparr>"
    have notin: "b \<notin> set (filter (\<lambda>b. reach px py ps b = Some False) pre)" using True rb by simp
    have rm: "remove1 b (balls s) = filter (\<lambda>b. reach px py ps b = Some False) pre @ post"
    proof -
      have "remove1 b (filter (\<lambda>b. reach px py ps b = Some False) pre @ b # post)
          = filter (\<lambda>b. reach px py ps b = Some False) pre @ remove1 b (b # post)"
        using notin by (simp only: remove1_append if_False)
      then show ?thesis using Cons.prems(1) by simp
    qed
    have bt: "balls ?t = filter (\<lambda>b. reach px py ps b = Some False) (pre @ [b]) @ post"
      using rm True rb by simp
    have mem: "b \<in> set (balls ?s1)" using Cons.prems(1) by simp
    have step: "eat_balls c px py ps (b # post) s = eat_balls c px py ps post ?t"
      using True mem d by (simp add: Let_def)
    have comp: "(\<lambda>q. q\<lparr>pl_score := grow n (pl_score q)\<rparr>) \<circ> (\<lambda>p. p\<lparr>pl_score := float_add (pl_score p) (1 / 2)\<rparr>)
        = (\<lambda>q. q\<lparr>pl_score := grow (Suc n) (pl_score q)\<rparr>)" for n
      by (rule ext) (simp add: grow_Suc)
    show ?thesis
      unfolding step Cons.IH[OF bt rest]
      using True rb by (simp add: map_entry_comp comp)
  qed
qed

lemma eat_balls_all:
  assumes "list_all (\<lambda>b. reach (pl_x p) (pl_y p) (pl_score p) b \<noteq> None) (balls s)"
  shows "eat_balls c (pl_x p) (pl_y p) (pl_score p) (balls s) s = Returns () (after_food c p s)"
  using eat_balls_filter[of s "pl_x p" "pl_y p" "pl_score p" "[]" "balls s" c] assms
  by (simp add: after_food_def)

lemma after_food_simps [simp]:
  "map fst (players (after_food c p s)) = map fst (players s)"
  "rand (after_food c p s) = rand s"
  "balls (after_food c p s) = filter (\<lambda>b. reach (pl_x p) (pl_y p) (pl_score p) b = Some False) (balls s)"
  by (simp_all add: after_food_def)

lemma after_food_other: "k \<noteq> c \<Longrightarrow> map_of (players (after_food c p s)) k = map_of (players s) k"
  by (simp add: after_food_def map_of_map_entry)

lemma after_food_acting:
  "map_of (players s) c = Some a \<Longrightarrow>
     \<exists>v. map_of (players (after_food c p s)) c = Some (a\<lparr>pl_score := v\<rparr>)"
  by (simp add: after_food_def map_of_map_entry) blast

subsection \<open>Eating players\<close>

lemma eat_player_self [simp]: "eat_player c px py ps c s = Returns () s"
  by (simp add: eat_player_def)

text \<open>What one pass of the body of the player loop can do when it returns.\<close>

lemma eat_player_Returns:
  assumes "eat_player c px py ps k t = Returns () t'"
  shows "t' = t \<or>
     (\<exists>m x y rs. k \<noteq> c \<and> in_world x y \<and>
        is_safe_location x y
          (AList.map_entry k (\<lambda>p. p\<lparr>pl_score := 0\<rparr>)
            (AList.map_entry c (\<lambda>p. p\<lparr>pl_score := m\<rparr>) (players t))) = Inr True \<and>
        t' = t\<lparr>rand := rs,
               players := AList.map_entry k (\<lambda>p. p\<lparr>pl_x := x, pl_y := y\<rparr>)
                 (AList.map_entry k (\<lambda>p. p\<lparr>pl_score := 0\<rparr>)
                   (AList.map_entry c (\<lambda>p. p\<lparr>pl_score := m\<rparr>) (players t)))\<rparr>)"
proof (cases "t' = t")
  case True then show ?thesis by simp
next
  case False
  from assms False have kc: "k \<noteq> c" by (auto simp: eat_player_def)
  from assms False kc obtain other where o: "map_of (players t) k = Some other"
    by (cases "map_of (players t) k") (auto simp: eat_player_def)
  from assms False kc o obtain d where d: "hypot (px - pl_x other) (py - pl_y other) = Some d"
    by (cases "hypot (px - pl_x other) (py - pl_y other)") (auto simp: eat_player_def Let_def)
  from assms False kc o d obtain pp where pp: "float_pow2 ps = Some pp"
    by (cases "float_pow2 ps") (auto simp: eat_player_def Let_def split: if_splits)
  from assms False kc o d pp obtain oo where oo: "float_pow2 (pl_score other) = Some oo"
    by (cases "float_pow2 (pl_score other)") (auto simp: eat_player_def Let_def split: if_splits)
  let ?m = "math_sqrt (float_add pp oo)"
  let ?ps2 = "AList.map_entry k (\<lambda>p. p\<lparr>pl_score := 0\<rparr>)
            (AList.map_entry c (\<lambda>p. p\<lparr>pl_score := ?m\<rparr>) (players t))"
  let ?s2 = "t\<lparr>players := ?ps2\<rparr>"
  from assms False kc o d pp oo obtain xy s3 where
    g: "get_start_location ?s2 = Returns xy s3"
    and t': "t' = s3\<lparr>players := AList.map_entry k (\<lambda>p. p\<lparr>pl_x := fst xy, pl_y := snd xy\<rparr>) (players s3)\<rparr>"
    by (cases "get_start_location ?s2") (auto simp: eat_player_def Let_def split: if_splits)
  from get_start_location_Returns[OF g] obtain rs where
    s3: "s3 = ?s2\<lparr>rand := rs\<rparr>" and safe: "is_safe_location (fst xy) (snd xy) ?ps2 = Inr True"
    and w: "in_world (fst xy) (snd xy)"
    by auto
  have "t' = t\<lparr>rand := rs, players := AList.map_entry k (\<lambda>p. p\<lparr>pl_x := fst xy, pl_y := snd xy\<rparr>) ?ps2\<rparr>"
    by (simp add: t' s3)
  then show ?thesis using kc w safe by blast
qed

lemma kept_or_moved_refl [simp]: "kept_or_moved p p"
  by (simp add: kept_or_moved_def)

lemma kept_or_moved_trans:
  assumes "kept_or_moved p q" and "kept_or_moved q r"
  shows "kept_or_moved p r"
proof (cases "q = p \<or> r = q")
  case True
  then show ?thesis using assms by auto
next
  case False
  then have q: "q = p\<lparr>pl_score := 0, pl_x := pl_x q, pl_y := pl_y q\<rparr>"
    and r: "r = q\<lparr>pl_score := 0, pl_x := pl_x r, pl_y := pl_y r\<rparr>"
    and w: "in_world (pl_x r) (pl_y r)"
    using assms by (auto simp: kept_or_moved_def)
  have "q\<lparr>pl_score := 0, pl_x := pl_x r, pl_y := pl_y r\<rparr>
      = p\<lparr>pl_score := 0, pl_x := pl_x r, pl_y := pl_y r\<rparr>"
    by (subst q) simp
  then have "r = p\<lparr>pl_score := 0, pl_x := pl_x r, pl_y := pl_y r\<rparr>" using r by simp
  then show ?thesis using w by (simp add: kept_or_moved_def)
qed

lemma eat_player_sound:
  assumes "eat_player c px py ps k t = Returns () t'"
  shows "balls t' = balls t \<and> map fst (players t') = map fst (players t)
     \<and> (map_of (players t) c = Some a \<longrightarrow> (\<exists>v. map_of (players t') c = Some (a\<lparr>pl_score := v\<rparr>)))
     \<and> (oid \<noteq> c \<and> map_of (players t) oid = Some other \<longrightarrow>
          (\<exists>other'. map_of (players t') oid = Some other' \<and> kept_or_moved other other'))"
proof -
  from eat_player_Returns[OF assms] show ?thesis
  proof
    assume "t' = t"
    moreover have "a = a\<lparr>pl_score := pl_score a\<rparr>" by simp
    ultimately show ?thesis by (metis kept_or_moved_refl)
  next
    assume "\<exists>m x y rs. k \<noteq> c \<and> in_world x y \<and>
        is_safe_location x y
          (AList.map_entry k (\<lambda>p. p\<lparr>pl_score := 0\<rparr>)
            (AList.map_entry c (\<lambda>p. p\<lparr>pl_score := m\<rparr>) (players t))) = Inr True \<and>
        t' = t\<lparr>rand := rs,
               players := AList.map_entry k (\<lambda>p. p\<lparr>pl_x := x, pl_y := y\<rparr>)
                 (AList.map_entry k (\<lambda>p. p\<lparr>pl_score := 0\<rparr>)
                   (AList.map_entry c (\<lambda>p. p\<lparr>pl_score := m\<rparr>) (players t)))\<rparr>"
    then obtain m x y rs where kc: "k \<noteq> c" and w: "in_world x y"
      and t': "t' = t\<lparr>rand := rs,
               players := AList.map_entry k (\<lambda>p. p\<lparr>pl_x := x, pl_y := y\<rparr>)
                 (AList.map_entry k (\<lambda>p. p\<lparr>pl_score := 0\<rparr>)
                   (AList.map_entry c (\<lambda>p. p\<lparr>pl_score := m\<rparr>) (players t)))\<rparr>"
      by blast
    have 1: "balls t' = balls t" "map fst (players t') = map fst (players t)" by (simp_all add: t')
    have 2: "\<exists>v. map_of (players t') c = Some (a\<lparr>pl_score := v\<rparr>)" if "map_of (players t) c = Some a"
      using that kc by (simp add: t' map_of_map_entry) blast
    have 3: "\<exists>other'. map_of (players t') oid = Some other' \<and> kept_or_moved other other'"
      if "oid \<noteq> c \<and> map_of (players t) oid = Some other"
    proof (cases "oid = k")
      case True
      then have "map_of (players t') oid = Some (other\<lparr>pl_score := 0, pl_x := x, pl_y := y\<rparr>)"
        using that kc by (simp add: t' map_of_map_entry)
      moreover have "kept_or_moved other (other\<lparr>pl_score := 0, pl_x := x, pl_y := y\<rparr>)"
        using w by (simp add: kept_or_moved_def)
      ultimately show ?thesis by blast
    next
      case False
      then have "map_of (players t') oid = Some other"
        using that by (simp add: t' map_of_map_entry)
      then show ?thesis by simp
    qed
    show ?thesis using 1 2 3 by blast
  qed
qed

lemma eat_players_Cons_Returns:
  assumes "eat_players c px py ps (k # ks) t = Returns () t'"
  obtains t1 where "eat_player c px py ps k t = Returns () t1"
    and "eat_players c px py ps ks t1 = Returns () t'"
  using assms by (cases "eat_player c px py ps k t") auto

lemma eat_players_sound:
  "eat_players c px py ps ks t = Returns () t' \<Longrightarrow>
     balls t' = balls t \<and> map fst (players t') = map fst (players t)
     \<and> (map_of (players t) c = Some a \<longrightarrow> (\<exists>v. map_of (players t') c = Some (a\<lparr>pl_score := v\<rparr>)))
     \<and> (oid \<noteq> c \<and> map_of (players t) oid = Some other \<longrightarrow>
          (\<exists>other'. map_of (players t') oid = Some other' \<and> kept_or_moved other other'))"
proof (induction ks arbitrary: t a other)
  case Nil
  have "a = a\<lparr>pl_score := pl_score a\<rparr>" by simp
  with Nil show ?case by (metis eat_players.simps(1) kept_or_moved_refl result.inject(1))
next
  case (Cons k ks)
  from Cons.prems obtain t1 where
    1: "eat_player c px py ps k t = Returns () t1" and 2: "eat_players c px py ps ks t1 = Returns () t'"
    by (rule eat_players_Cons_Returns)
  note h = eat_player_sound[OF 1, of a oid other]
  have b: "balls t' = balls t" "map fst (players t') = map fst (players t)"
    using h Cons.IH[OF 2] by simp_all
  have a': "\<exists>v. map_of (players t') c = Some (a\<lparr>pl_score := v\<rparr>)" if "map_of (players t) c = Some a"
  proof -
    from h that obtain v1 where "map_of (players t1) c = Some (a\<lparr>pl_score := v1\<rparr>)" by blast
    with Cons.IH[OF 2, of "a\<lparr>pl_score := v1\<rparr>"] obtain v where
      "map_of (players t') c = Some (a\<lparr>pl_score := v1, pl_score := v\<rparr>)" by blast
    then have "map_of (players t') c = Some (a\<lparr>pl_score := v\<rparr>)" by simp
    then show ?thesis by blast
  qed
  have o': "\<exists>other'. map_of (players t') oid = Some other' \<and> kept_or_moved other other'"
    if "oid \<noteq> c \<and> map_of (players t) oid = Some other"
  proof -
    from h that obtain o1 where o1: "map_of (players t1) oid = Some o1" "kept_or_moved other o1" by blast
    with Cons.IH[OF 2, of _ o1] that obtain o2 where
      "map_of (players t') oid = Some o2" "kept_or_moved o1 o2" by blast
    then show ?thesis using o1(2) kept_or_moved_trans by blast
  qed
  show ?case using b a' o' by blast
qed

subsection \<open>The collision resolver as a whole\<close>

lemma check_collisions_unfold:
  assumes "map_of (players s) c = Some p"
    and "list_all (\<lambda>b. reach (pl_x p) (pl_y p) (pl_score p) b \<noteq> None) (balls s)"
  shows "check_collisions c s =
     eat_players c (pl_x p) (pl_y p) (pl_score p) (map fst (players s)) (after_food c p s)"
  using assms by (simp add: check_collisions_def eat_balls_all)

lemma check_collisions_Returns:
  assumes "check_collisions c s = Returns () s'" and "map_of (players s) c = Some p"
  shows "eat_players c (pl_x p) (pl_y p) (pl_score p) (map fst (players s)) (after_food c p s)
           = Returns () s'"
proof -
  from assms obtain s1 where "eat_balls c (pl_x p) (pl_y p) (pl_score p) (balls s) s = Returns () s1"
    by (auto simp: check_collisions_def Let_def split: result.splits)
  from eat_balls_Returns_reach[OF this]
  show ?thesis using check_collisions_unfold[OF assms(2)] assms(1) by simp
qed

lemma check_collisions_sound:
  assumes "check_collisions c s = Returns () s'" and "map_of (players s) c = Some a"
  shows "balls s' = filter (\<lambda>b. reach (pl_x a) (pl_y a) (pl_score a) b = Some False) (balls s)
     \<and> (\<exists>v. map_of (players s') c = Some (a\<lparr>pl_score := v\<rparr>))
     \<and> (oid \<noteq> c \<and> map_of (players s) oid = Some other \<longrightarrow>
          (\<exists>other'. map_of (players s') oid = Some other' \<and> kept_or_moved other other'))"
proof -
  note run = check_collisions_Returns[OF assms]
  from after_food_acting[OF assms(2), of a] obtain v0 where
    a0: "map_of (players (after_food c a s)) c = Some (a\<lparr>pl_score := v0\<rparr>)" by blast
  note h = eat_players_sound[OF run, of "a\<lparr>pl_score := v0\<rparr>" oid other]
  have 1: "balls s' = filter (\<lambda>b. reach (pl_x a) (pl_y a) (pl_score a) b = Some False) (balls s)"
    using h by simp
  from h a0 obtain v where "map_of (players s') c = Some (a\<lparr>pl_score := v0, pl_score := v\<rparr>)" by blast
  then have "map_of (players s') c = Some (a\<lparr>pl_score := v\<rparr>)" by simp
  then have 2: "\<exists>v. map_of (players s') c = Some (a\<lparr>pl_score := v\<rparr>)" by blast
  have 3: "\<exists>other'. map_of (players s') oid = Some other' \<and> kept_or_moved other other'"
    if "oid \<noteq> c \<and> map_of (players s) oid = Some other"
    using h that after_food_other[of oid c a s] by simp
  show ?thesis using 1 2 3 by blast
qed

subsection \<open>Move intents\<close>

lemma moved_lookup:
  "map_of (players s) c = Some p \<Longrightarrow>
     map_of (players (moved c x y s)) c = Some (p\<lparr>pl_x := x, pl_y := y\<rparr>)"
  by (simp add: moved_def map_of_map_entry)

lemma moved_simps [simp]:
  "balls (moved c x y s) = balls s" "map fst (players (moved c x y s)) = map fst (players s)"
  "game_started (moved c x y s) = game_started s" "rand (moved c x y s) = rand s"
  by (simp_all add: moved_def)

lemma move_command_unfold:
  assumes "py_split cmd = [w, xs, ys]" "py_int xs = Some x" "py_int ys = Some y"
    "map_of (players s) c = Some p"
  shows "move_command c cmd s =
     (case (if game_started s then check_collisions c (moved c x y s)
            else Returns () (moved c x y s)) of
        Returns _ s3 \<Rightarrow> replenish s3 | Raises e s3 \<Rightarrow> Raises e s3 | Pending \<Rightarrow> Pending)"
  using assms by (simp add: move_command_def Let_def moved_def)

lemma move_command_Returns:
  assumes "move_command c cmd s = Returns () s'"
  obtains w xs ys x y p s3 where
    "py_split cmd = [w, xs, ys]" "py_int xs = Some x" "py_int ys = Some y"
    "map_of (players s) c = Some p"
    "if game_started s then check_collisions c (moved c x y s) = Returns () s3
     else s3 = moved c x y s"
    "replenish s3 = Returns () s'"
proof -
  from assms obtain w xs ys where sp: "py_split cmd = [w, xs, ys]"
    by (auto simp: move_command_def split: list.splits)
  from assms sp obtain x where x: "py_int xs = Some x"
    by (auto simp: move_command_def split: option.splits)
  from assms sp x obtain p where p: "map_of (players s) c = Some p"
    by (auto simp: move_command_def split: option.splits)
  from assms sp x p obtain y where y: "py_int ys = Some y"
    by (auto simp: move_command_def Let_def split: option.splits)
  let ?r = "if game_started s then check_collisions c (moved c x y s) else Returns () (moved c x y s)"
  note eq = move_command_unfold[OF sp x y p]
  from assms eq obtain s3 where s3: "?r = Returns () s3" "replenish s3 = Returns () s'"
    by (cases ?r) auto
  have cc: "if game_started s then check_collisions c (moved c x y s) = Returns () s3
     else s3 = moved c x y s"
    using s3(1) by (auto split: if_splits)
  show thesis using that[OF sp x y p cc s3(2)] .
qed


lemma move_command_pos:
  assumes "move_command c cmd s = Returns () s'" "py_split cmd = [w, xs, ys]"
    "py_int xs = Some x" "py_int ys = Some y"
  shows "\<exists>p. map_of (players s') c = Some p \<and> pl_x p = x \<and> pl_y p = y"
proof -
  from assms(1) obtain w' xs' ys' x' y' q s3 where
    sp: "py_split cmd = [w', xs', ys']" "py_int xs' = Some x'" "py_int ys' = Some y'"
    and q: "map_of (players s) c = Some q"
    and cc: "if game_started s then check_collisions c (moved c x' y' s) = Returns () s3
             else s3 = moved c x' y' s"
    and rp: "replenish s3 = Returns () s'"
    by (rule move_command_Returns)
  have xy: "x' = x" "y' = y" using sp assms(2,3,4) by simp_all
  note m = moved_lookup[OF q, of x y]
  have "\<exists>v. map_of (players s3) c = Some (q\<lparr>pl_x := x, pl_y := y, pl_score := v\<rparr>)"
  proof (cases "game_started s")
    case True
    then have "check_collisions c (moved c x y s) = Returns () s3" using cc xy by simp
    from check_collisions_sound[OF this m] show ?thesis by blast
  next
    case False
    then have "s3 = moved c x y s" using cc xy by simp
    then have "map_of (players s3) c = Some (q\<lparr>pl_x := x, pl_y := y, pl_score := pl_score q\<rparr>)"
      using m by simp
    then show ?thesis by blast
  qed
  moreover have "players s' = players s3" using replenish_Returns[OF rp] by auto
  ultimately show ?thesis by auto
qed

subsection \<open>Round clock and decay\<close>

lemma update_game_state_idle [simp]:
  "\<not> game_started s \<Longrightarrow> update_game_state now s = s"
  by (simp add: update_game_state_def)

lemma update_game_state_frame [simp]:
  "balls (update_game_state now s) = balls s"
  "rand (update_game_state now s) = rand s"
  "start_time (update_game_state now s) = start_time s"
  "player_id_counter (update_game_state now s) = player_id_counter s"
  by (simp_all add: update_game_state_def Let_def)

lemma update_game_state_players:
  "players (update_game_state now s) =
     (if game_started s \<and> py_round (now - start_time s) div MASS_LOSS_TIME = next_mass_loss_tick s
      then map (\<lambda>kp. (fst kp, mass_loss (snd kp))) (players s) else players s)"
  by (simp add: update_game_state_def Let_def)

lemma update_game_state_tick:
  "next_mass_loss_tick (update_game_state now s) =
     (if game_started s \<and> py_round (now - start_time s) div MASS_LOSS_TIME = next_mass_loss_tick s
      then next_mass_loss_tick s + 1 else next_mass_loss_tick s)"
  by (simp add: update_game_state_def Let_def)

lemma update_game_state_started:
  "game_started (update_game_state now s) \<longleftrightarrow>
     game_started s \<and> py_round (now - start_time s) < ROUND_TIME"
  by (auto simp: update_game_state_def Let_def)

lemma mass_loss_same:
  "pl_x (mass_loss p) = pl_x p" "pl_y (mass_loss p) = pl_y p"
  "pl_color (mass_loss p) = pl_color p" "pl_name (mass_loss p) = pl_name p"
  by (simp_all add: mass_loss_def)

lemma py_round_numeral [simp]: "py_round (numeral n) = numeral n"
  using py_round_of_int[of "numeral n"] by simp

lemma decay_100: "\<lfloor>float_mul 100 (fl 0.95)\<rfloor> = 95"
proof -
  have "fl (100 * (8556839292003942 / 2 ^ 53)) = 95"
    by (subst fl_eval_ge1[of 6]) (simp_all add: py_round_def Let_def)
  then show ?thesis unfolding float_mul_def fl_literals by simp
qed

lemma mass_loss_100: "mass_loss (mk_player x y 100 n) = mk_player x y 95 n"
  using decay_100 by (simp add: mass_loss_def mk_player_def del: of_int_floor_cancel)

text \<open>The spec's example: score 100 seen at 6 s, 8 s and 13 s of the round.\<close>

lemma decay_example:
  "update_game_state 6 heavy = heavy\<lparr>game_time := Seconds 6\<rparr>"
  "update_game_state 8 (heavy\<lparr>game_time := Seconds 6\<rparr>)
     = (world [(0, mk_player 100 100 95 ''a'')] [] [])
         \<lparr>game_time := Seconds 8, next_mass_loss_tick := 2\<rparr>"
  "update_game_state 13 ((world [(0, mk_player 100 100 95 ''a'')] [] [])
         \<lparr>game_time := Seconds 8, next_mass_loss_tick := 2\<rparr>)
     = (world [(0, mk_player 100 100 95 ''a'')] [] [])
         \<lparr>game_time := Seconds 13, next_mass_loss_tick := 2\<rparr>"
  by (simp_all add: update_game_state_def heavy_def world_def init_server_def Let_def
        ROUND_TIME_def MASS_LOSS_TIME_def mass_loss_100)

text \<open>
  C4, the code at the failing input. No intent is processed between 7 s and 14 s of the
  round; the first one arrives at 15 s. The quotient 15 div 7 = 2 is not the awaited
  tick 1: no score decays, the tick stays 1, and since the quotient only grows the
  same happens at 22 s and at every later intent of the round.
\<close>

theorem decay_skipped:
  "update_game_state 15 heavy = heavy\<lparr>game_time := Seconds 15\<rparr>
   \<and> update_game_state 22 (heavy\<lparr>game_time := Seconds 15\<rparr>) = heavy\<lparr>game_time := Seconds 22\<rparr>
   \<and> players (heavy\<lparr>game_time := Seconds 22\<rparr>) = [(0, mk_player 100 100 100 ''a'')]
   \<and> next_mass_loss_tick (heavy\<lparr>game_time := Seconds 22\<rparr>) = 1"
  by (simp add: update_game_state_def heavy_def world_def init_server_def Let_def
        ROUND_TIME_def MASS_LOSS_TIME_def)

text \<open>
  C10. A command string that starts with neither \<open>move\<close> nor \<open>msg\<close> does not end the
  session: the pass of the loop returns the snapshot of the state that the clock update
  left, and this state has the food, the chat log and every player's position, colour
  and name of the state before; the scores are those of before, or their decayed values
  when this update is a decay tick.
\<close>

theorem unknown_command_ignored:
  assumes "\<not> startswith command ''move''" and "\<not> startswith command ''msg''"
  shows "handle_command now cid command s
           = Returns (balls s, players (update_game_state now s),
                      game_time (update_game_state now s), msg_history s)
                     (update_game_state now s)
       \<and> step (Command now cid command) s = Some (update_game_state now s)
       \<and> balls (update_game_state now s) = balls s
       \<and> msg_history (update_game_state now s) = msg_history s
       \<and> map (\<lambda>kp. (fst kp, pl_x (snd kp), pl_y (snd kp), pl_color (snd kp), pl_name (snd kp)))
            (players (update_game_state now s))
         = map (\<lambda>kp. (fst kp, pl_x (snd kp), pl_y (snd kp), pl_color (snd kp), pl_name (snd kp)))
            (players s)
       \<and> players (update_game_state now s)
         = (if game_started s \<and>
               py_round (now - start_time s) div MASS_LOSS_TIME = next_mass_loss_tick s
            then map (\<lambda>kp. (fst kp, mass_loss (snd kp))) (players s) else players s)"
proof -
  let ?s0 = "update_game_state now s"
  have h: "handle_command now cid command s = Returns (snapshot_of ?s0) ?s0"
    using assms by (simp add: handle_command_def Let_def)
  have sn: "snapshot_of ?s0 = (balls s, players ?s0, game_time ?s0, msg_history s)"
    by (simp add: snapshot_of_def)
  have pos: "map (\<lambda>kp. (fst kp, pl_x (snd kp), pl_y (snd kp), pl_color (snd kp), pl_name (snd kp)))
            (players ?s0)
         = map (\<lambda>kp. (fst kp, pl_x (snd kp), pl_y (snd kp), pl_color (snd kp), pl_name (snd kp)))
            (players s)"
    by (simp add: update_game_state_players mass_loss_same comp_def)
  show ?thesis
    using h sn pos update_game_state_players[of now s] by simp
qed

theorem unknown_command_ignored_witness:
  "\<not> startswith ''ping'' ''move'' \<and> \<not> startswith ''ping'' ''msg''
   \<and> handle_command 8 0 ''ping'' heavy
       = Returns ([], [(0, mk_player 100 100 95 ''a'')], Seconds 8, [])
           ((world [(0, mk_player 100 100 95 ''a'')] [] [])
              \<lparr>game_time := Seconds 8, next_mass_loss_tick := 2\<rparr>)
   \<and> step (Command 8 0 ''ping'') heavy
       = Some ((world [(0, mk_player 100 100 95 ''a'')] [] [])
              \<lparr>game_time := Seconds 8, next_mass_loss_tick := 2\<rparr>)"
proof -
  have a: "\<not> startswith ''ping'' ''move''" and b: "\<not> startswith ''ping'' ''msg''"
    by (simp_all add: startswith_def)
  have u: "update_game_state 8 heavy = (world [(0, mk_player 100 100 95 ''a'')] [] [])
              \<lparr>game_time := Seconds 8, next_mass_loss_tick := 2\<rparr>"
    by (simp add: update_game_state_def heavy_def world_def init_server_def Let_def
        ROUND_TIME_def MASS_LOSS_TIME_def mass_loss_100)
  show ?thesis
    using unknown_command_ignored[OF a b, of 8 0 heavy] a b
    unfolding u by (simp add: heavy_def world_def init_server_def)
qed

subsection \<open>Start-up, and what raises the round flag\<close>

lemma start_Returns:
  "start draws = Returns () s \<Longrightarrow> length (balls s) = 200 \<and> players s = [] \<and> \<not> game_started s"
proof -
  assume "start draws = Returns () s"
  then have cb: "create_balls 200 (init_server draws) = Returns () s" by (simp add: start_def)
  from create_balls_Returns[OF cb] show ?thesis
    by (auto simp: init_server_def frame_def)
qed

lemma frame_handshake: "after (\<lambda>s'. game_started s' = game_started s) (handshake c name s)"
  by (auto simp: handshake_def Let_def get_start_location_def add_chat_message_def
        split: drawn.splits)

lemma started_cleanup [simp]: "game_started (cleanup c s) = game_started s"
  by (auto simp: cleanup_def Let_def add_chat_message_def split: option.splits)

lemma down_handle_command:
  assumes "\<not> game_started s"
  shows "after (\<lambda>s'. \<not> game_started s') (handle_command now c cmd s)"
proof -
  have mv: "after (\<lambda>s'. \<not> game_started s') (move_command c cmd s)"
    using frame_move_command[of s c cmd] by (rule after_mono) (use assms in \<open>simp add: frame_def\<close>)
  have ms: "after (\<lambda>s'. \<not> game_started s') (msg_command c cmd s)"
    using assms by (auto simp: msg_command_def add_chat_message_def Let_def split: option.splits)
  have wrap: "after P (case r of Returns _ s' \<Rightarrow> Returns (snapshot_of s') s' | Raises e s' \<Rightarrow> Raises e s' | Pending \<Rightarrow> Pending)"
    if "after P r" for r :: "unit result" and P
    using that by (cases r) auto
  show ?thesis
    unfolding handle_command_def Let_def update_game_state_idle[OF assms]
    by (rule wrap) (use mv ms assms in auto)
qed

text \<open>
  Once the flag is down, no handshake, command or disconnect raises it; the accept loop
  does, at the next connection.
\<close>

lemma flag_stays_down:
  assumes "\<not> game_started s" and "step e s = Some s'" and "\<And>now. e \<noteq> Accept now"
  shows "\<not> game_started s'"
proof (cases e)
  case (Accept now)
  then show ?thesis using assms(3) by simp
next
  case (Handshake c name)
  then show ?thesis
    using assms(1,2) frame_handshake[of s c name]
    by (auto split: result.splits)
next
  case (Command now c cmd)
  then show ?thesis
    using assms(2) down_handle_command[OF assms(1), of now c cmd]
    by (auto split: result.splits)
next
  case (Disconnect c)
  then show ?thesis using assms(1,2) by auto
qed

lemma accept_raises_flag: "game_started (snd (accept now s))"
  by (simp add: accept_def Let_def)

lemma accept_restarts_clock:
  "\<not> game_started s \<Longrightarrow> start_time (snd (accept now s)) = now"
  by (simp add: accept_def Let_def)

text \<open>While the flag is down a move changes no score and eats nothing.\<close>

lemma move_while_down:
  assumes "\<not> game_started s" and "move_command c cmd s = Returns () s'"
  shows "map (\<lambda>kp. (fst kp, pl_score (snd kp))) (players s')
           = map (\<lambda>kp. (fst kp, pl_score (snd kp))) (players s)
       \<and> (\<exists>batch. balls s' = balls s @ batch)"
proof -
  from assms(2) obtain w xs ys x y p s3 where
    cc: "if game_started s then check_collisions c (moved c x y s) = Returns () s3
         else s3 = moved c x y s"
    and rp: "replenish s3 = Returns () s'"
    by (rule move_command_Returns)
  have s3: "s3 = moved c x y s" using cc assms(1) by simp
  have sc: "map (\<lambda>kp. (fst kp, pl_score (snd kp))) (AList.map_entry k f xs)
      = map (\<lambda>kp. (fst kp, pl_score (snd kp))) xs"
    if "\<And>v. pl_score (f v) = pl_score v" for k f and xs :: "(nat \<times> player) list"
    using that by (induction xs) auto
  have "map (\<lambda>kp. (fst kp, pl_score (snd kp))) (players s3)
      = map (\<lambda>kp. (fst kp, pl_score (snd kp))) (players s)"
    unfolding s3 moved_def by (simp add: sc)
  moreover from replenish_Returns[OF rp] obtain batch where
    "balls s' = balls s3 @ batch" "players s' = players s3" by blast
  ultimately show ?thesis using s3 by auto
qed

subsection \<open>Round expiry\<close>

lemma py_round_01 [simp]: "py_round 0 = 0" "py_round 1 = 1"
  using py_round_of_int[of 0] py_round_of_int[of 1] by simp_all

lemma py_split_moves:
  "py_split ''move 400 400'' = [''move'', ''400'', ''400'']"
  "py_split ''move 10 10'' = [''move'', ''10'', ''10'']"
  by (simp_all add: py_split_def is_space_def)

lemma py_int_moves: "py_int ''400'' = Some 400" "py_int ''10'' = Some 10"
  by (simp_all add: py_int_def unsigned_int_def is_digit_def digit_val_def)

lemma first_round_run:
  "run [Accept 0, Handshake 0 ''a'', Command 300 0 ''move 400 400''] fresh_world
     = Some expired_world"
proof -
  let ?s1 = "fresh_world\<lparr>start_time := 0, game_started := True, player_id_counter := 1\<rparr>"
  have 1: "step (Accept 0) fresh_world = Some ?s1"
    by (simp add: accept_def fresh_world_def init_server_def Let_def)
  let ?s2 = "?s1\<lparr>msg_history := [''a CONNECTED''], rand := [100, 100],
      players := [(0, \<lparr>pl_x = 400, pl_y = 400, pl_color = (255, 0, 0), pl_score = 0, pl_name = ''a''\<rparr>)]\<rparr>"
  have 2: "step (Handshake 0 ''a'') ?s1 = Some ?s2"
    by (simp add: handshake_def add_chat_message_def get_start_location_def fresh_world_def
          init_server_def Let_def randrange_def W_def H_def COLORS_def)
  have u: "update_game_state 300 ?s2 = ?s2\<lparr>game_time := Seconds 300, game_started := False\<rparr>"
    by (simp add: update_game_state_def fresh_world_def init_server_def Let_def
          ROUND_TIME_def MASS_LOSS_TIME_def)
  have 3: "step (Command 300 0 ''move 400 400'') ?s2 = Some expired_world"
    unfolding step.simps handle_command_def u Let_def
    by (simp add: startswith_def move_command_def py_split_moves py_int_moves Let_def
          replenish_def fresh_world_def init_server_def expired_world_def)
  show ?thesis using 1 2 3 by simp
qed

lemma second_round_run:
  "run [Accept 301, Handshake 1 ''b'', Command 302 1 ''move 10 10''] expired_world
     = Some restarted_world"
proof -
  let ?s1 = "expired_world\<lparr>start_time := 301, game_started := True, player_id_counter := 2\<rparr>"
  have 1: "step (Accept 301) expired_world = Some ?s1"
    by (simp add: accept_def expired_world_def Let_def)
  let ?p0 = "\<lparr>pl_x = 400, pl_y = 400, pl_color = (255, 0, 0), pl_score = 0, pl_name = ''a''\<rparr>"
  let ?s2 = "?s1\<lparr>msg_history := [''a CONNECTED'', ''b CONNECTED''], rand := [],
      players := [(0, ?p0),
                  (1, \<lparr>pl_x = 100, pl_y = 100, pl_color = (255, 128, 0), pl_score = 0, pl_name = ''b''\<rparr>)]\<rparr>"
  have far0: "\<not> fl (sqrt 180000) \<le> 7"
    using fl_sqrt_ge[of 424 180000] by simp
  have 2: "step (Handshake 1 ''b'') ?s1 = Some ?s2"
    by (simp add: handshake_def add_chat_message_def get_start_location_def expired_world_def
          Let_def randrange_def W_def H_def COLORS_def hypot_small float_add_def far0
          START_RADIUS_def)
  let ?s0 = "?s2\<lparr>game_time := Seconds 1\<rparr>"
  have u: "update_game_state 302 ?s2 = ?s0"
    by (simp add: update_game_state_def expired_world_def Let_def
          ROUND_TIME_def MASS_LOSS_TIME_def)
  let ?q = "\<lparr>pl_x = 10, pl_y = 10, pl_color = (255, 128, 0), pl_score = 0, pl_name = ''b''\<rparr>"
  let ?s3 = "?s0\<lparr>players := [(0, ?p0), (1, ?q)]\<rparr>"
  have m: "moved 1 10 10 ?s0 = ?s3" by (simp add: moved_def expired_world_def)
  have q: "map_of (players ?s3) 1 = Some ?q" by simp
  have near: "reach 10 10 0 (10, 10, red) = Some True"
    by (simp add: reach_def hypot_small float_add_def START_RADIUS_def)
  have far1: "\<not> fl (sqrt 1100200) \<le> 7"
    using fl_sqrt_ge[of 1048 1100200] by simp
  have far: "reach 10 10 0 (800, 700, red) = Some False"
    by (simp add: reach_def hypot_small float_add_def START_RADIUS_def far1)
  have ok: "list_all (\<lambda>b. reach (pl_x ?q) (pl_y ?q) (pl_score ?q) b \<noteq> None) (balls ?s3)"
    using near far by (auto simp: expired_world_def list_all_iff)
  have g1: "grow (Suc 0) 0 = 1 / 2" using grow_half[of 0 1] by simp
  have cc: "check_collisions 1 ?s3 = Returns () restarted_world"
    unfolding check_collisions_unfold[OF q ok] using near far
    by (simp add: after_food_def expired_world_def restarted_world_def g1
          eat_player_def hypot_small float_mul_def)
  have 3: "step (Command 302 1 ''move 10 10'') ?s2 = Some restarted_world"
    unfolding step.simps handle_command_def u Let_def
    using cc m[unfolded moved_def]
    by (simp add: startswith_def move_command_def py_split_moves py_int_moves Let_def
          replenish_def expired_world_def restarted_world_def)
  show ?thesis using 1 2 3 by simp
qed

text \<open>
  C8, the code at the failing input. The first player connects at time 0 and moves at
  300 s, which ends the round. A second player connects at 301 s: the accept loop finds
  the flag down, starts the clock again and raises the flag, and the move at 302 s runs
  the collision resolver (the player eats the food item at (10, 10)).
\<close>

theorem round_restarted:
  "run [Accept 0, Handshake 0 ''a'', Command 300 0 ''move 400 400''] fresh_world
     = Some expired_world
   \<and> \<not> game_started expired_world
   \<and> run [Accept 301, Handshake 1 ''b'', Command 302 1 ''move 10 10''] expired_world
     = Some restarted_world
   \<and> game_started restarted_world \<and> start_time restarted_world = 301
   \<and> length (balls restarted_world) < length (balls expired_world)
   \<and> map_of (players restarted_world) 1
     = Some \<lparr>pl_x = 10, pl_y = 10, pl_color = (255, 128, 0), pl_score = 0.5, pl_name = ''b''\<rparr>"
  using first_round_run second_round_run
  by (simp add: expired_world_def restarted_world_def)

subsection \<open>Scores are never negative\<close>

lemma nn_map_entry:
  "list_all (\<lambda>kp. 0 \<le> pl_score (snd kp)) xs \<Longrightarrow>
   (\<And>v. 0 \<le> pl_score v \<Longrightarrow> 0 \<le> pl_score (f v)) \<Longrightarrow>
     list_all (\<lambda>kp. 0 \<le> pl_score (snd kp)) (AList.map_entry k f xs)"
  by (induction xs) auto

lemma nn_update:
  "list_all (\<lambda>kp. 0 \<le> pl_score (snd kp)) xs \<Longrightarrow> 0 \<le> pl_score v \<Longrightarrow>
     list_all (\<lambda>kp. 0 \<le> pl_score (snd kp)) (AList.update k v xs)"
  by (induction xs) auto

lemma nn_delete:
  "list_all (\<lambda>kp. 0 \<le> pl_score (snd kp)) xs \<Longrightarrow>
     list_all (\<lambda>kp. 0 \<le> pl_score (snd kp)) (AList.delete k xs)"
  by (induction xs) auto

lemma mass_loss_nonneg: "0 \<le> pl_score p \<Longrightarrow> 0 \<le> pl_score (mass_loss p)"
proof -
  assume h: "0 \<le> pl_score p"
  show ?thesis
  proof (cases "pl_score p > 8")
    case True
    have "0 \<le> fl 0.95" by (rule fl_nonneg) simp
    then have "0 \<le> pl_score p * fl 0.95" using h by simp
    then have "0 \<le> float_mul (pl_score p) (fl 0.95)" unfolding float_mul_def by (rule fl_nonneg)
    then have "0 \<le> \<lfloor>float_mul (pl_score p) (fl 0.95)\<rfloor>" by simp
    then show ?thesis using True by (simp add: mass_loss_def del: zero_le_floor)
  next
    case False
    then show ?thesis using h by (simp add: mass_loss_def)
  qed
qed

lemma nonneg_upd [simp]:
  "scores_nonneg (s\<lparr>balls := bs\<rparr>) = scores_nonneg s"
  "scores_nonneg (s\<lparr>rand := rs\<rparr>) = scores_nonneg s"
  "scores_nonneg (s\<lparr>msg_history := h\<rparr>) = scores_nonneg s"
  "scores_nonneg (s\<lparr>game_time := g\<rparr>) = scores_nonneg s"
  "scores_nonneg (s\<lparr>game_started := b\<rparr>) = scores_nonneg s"
  "scores_nonneg (s\<lparr>start_time := t\<rparr>) = scores_nonneg s"
  "scores_nonneg (s\<lparr>next_mass_loss_tick := n\<rparr>) = scores_nonneg s"
  "scores_nonneg (s\<lparr>player_id_counter := i\<rparr>) = scores_nonneg s"
  by (simp_all add: scores_nonneg_def)

lemma nonneg_map_entry:
  "scores_nonneg s \<Longrightarrow> (\<And>v. 0 \<le> pl_score v \<Longrightarrow> 0 \<le> pl_score (f v)) \<Longrightarrow>
     scores_nonneg (s\<lparr>players := AList.map_entry k f (players s)\<rparr>)"
  unfolding scores_nonneg_def by (simp add: nn_map_entry)

lemma nonneg_update_game_state: "scores_nonneg s \<Longrightarrow> scores_nonneg (update_game_state now s)"
  by (auto simp: scores_nonneg_def update_game_state_players list_all_iff mass_loss_nonneg)

lemma nonneg_add_chat [simp]: "scores_nonneg (add_chat_message m s) = scores_nonneg s"
  by (simp add: add_chat_message_def Let_def)

lemma nonneg_accept: "scores_nonneg s \<Longrightarrow> scores_nonneg (snd (accept now s))"
  by (simp add: accept_def Let_def)

lemma nonneg_cleanup: "scores_nonneg s \<Longrightarrow> scores_nonneg (cleanup c s)"
  by (auto simp: cleanup_def Let_def scores_nonneg_def add_chat_message_def
        intro!: nn_delete split: option.splits)

lemma nonneg_handshake: "scores_nonneg s \<Longrightarrow> after scores_nonneg (handshake c name s)"
  by (auto simp: handshake_def Let_def get_start_location_def scores_nonneg_def
        add_chat_message_def intro!: nn_update split: drawn.splits)

lemma nonneg_create_balls: "scores_nonneg s \<Longrightarrow> after scores_nonneg (create_balls n s)"
  by (induction n arbitrary: s) (auto split: drawn.splits list.splits)

lemma nonneg_replenish: "scores_nonneg s \<Longrightarrow> after scores_nonneg (replenish s)"
  by (auto simp: replenish_def nonneg_create_balls split: list.splits)

lemma nonneg_eat_balls: "scores_nonneg s \<Longrightarrow> after scores_nonneg (eat_balls c px py ps bs s)"
proof (induction bs arbitrary: s)
  case Nil then show ?case by simp
next
  case (Cons b bs)
  let ?s1 = "s\<lparr>players := AList.map_entry c (\<lambda>p. p\<lparr>pl_score := float_add (pl_score p) 0.5\<rparr>) (players s)\<rparr>"
  have 1: "scores_nonneg ?s1" using Cons.prems
    by (rule nonneg_map_entry) (simp add: float_add_def fl_nonneg)
  then have 2: "scores_nonneg (?s1\<lparr>balls := remove1 b (balls ?s1)\<rparr>)" by simp
  show ?case
    using Cons.IH[OF 2] Cons.IH[OF Cons.prems] 1 Cons.prems
    by (simp add: Let_def split: option.splits)
qed

lemma nonneg_players:
  "scores_nonneg (s\<lparr>players := ps\<rparr>) = list_all (\<lambda>kp. 0 \<le> pl_score (snd kp)) ps"
  by (simp add: scores_nonneg_def)

lemma float_pow2_nonneg: "float_pow2 x = Some v \<Longrightarrow> 0 \<le> v"
  by (auto simp: float_pow2_def fl_nonneg split: if_splits)

lemma merge_nonneg:
  "float_pow2 a = Some pp \<Longrightarrow> float_pow2 b = Some oo \<Longrightarrow> 0 \<le> math_sqrt (float_add pp oo)"
proof -
  assume "float_pow2 a = Some pp" "float_pow2 b = Some oo"
  then have "0 \<le> pp + oo" using float_pow2_nonneg[of a pp] float_pow2_nonneg[of b oo] by simp
  then have "0 \<le> float_add pp oo" unfolding float_add_def by (rule fl_nonneg)
  then have "0 \<le> sqrt (float_add pp oo)" by simp
  then show ?thesis unfolding math_sqrt_def by (rule fl_nonneg)
qed

lemma nonneg_eat_player: "scores_nonneg s \<Longrightarrow> after scores_nonneg (eat_player c px py ps k s)"
proof -
  assume h: "scores_nonneg s"
  have m: "scores_nonneg (s\<lparr>players :=
         AList.map_entry k (\<lambda>p. p\<lparr>pl_score := 0\<rparr>)
            (AList.map_entry c (\<lambda>p. p\<lparr>pl_score := v\<rparr>) (players s))\<rparr>)" if "0 \<le> v" for v
    using h that unfolding scores_nonneg_def by (auto intro!: nn_map_entry)
  have g: "after scores_nonneg
      (case get_start_location t of
         Returns xy s3 \<Rightarrow> Returns () (s3\<lparr>players :=
             AList.map_entry k (\<lambda>p. p\<lparr>pl_x := fst xy, pl_y := snd xy\<rparr>) (players s3)\<rparr>)
       | Raises e s3 \<Rightarrow> Raises e s3 | Pending \<Rightarrow> Pending)"
    if t: "scores_nonneg t" for t
  proof (cases "get_start_location t")
    case (Returns xy s3)
    then have "\<exists>rs. s3 = t\<lparr>rand := rs\<rparr>" using get_start_location_rand[of t] by simp
    then have "scores_nonneg s3" using t by auto
    then have "scores_nonneg (s3\<lparr>players :=
             AList.map_entry k (\<lambda>p. p\<lparr>pl_x := fst xy, pl_y := snd xy\<rparr>) (players s3)\<rparr>)"
      by (rule nonneg_map_entry) simp
    then show ?thesis using Returns by simp
  next
    case (Raises e s3)
    then have "\<exists>rs. s3 = t\<lparr>rand := rs\<rparr>" using get_start_location_rand[of t] by simp
    then have "scores_nonneg s3" using t by auto
    then show ?thesis using Raises by simp
  next
    case Pending then show ?thesis by simp
  qed
  show ?thesis
    unfolding eat_player_def Let_def
    using h by (auto split: option.splits intro!: g m merge_nonneg)
qed

lemma nonneg_eat_players: "scores_nonneg s \<Longrightarrow> after scores_nonneg (eat_players c px py ps ks s)"
proof (induction ks arbitrary: s)
  case Nil then show ?case by simp
next
  case (Cons k ks)
  show ?case
    using nonneg_eat_player[OF Cons.prems, of c px py ps k] Cons.IH
    by (cases "eat_player c px py ps k s") auto
qed

lemma nonneg_check_collisions: "scores_nonneg s \<Longrightarrow> after scores_nonneg (check_collisions c s)"
proof -
  assume h: "scores_nonneg s"
  show ?thesis
  proof (cases "map_of (players s) c")
    case None then show ?thesis using h by (simp add: check_collisions_def)
  next
    case (Some p)
    show ?thesis
      using nonneg_eat_balls[OF h, of c "pl_x p" "pl_y p" "pl_score p" "balls s"] Some
        nonneg_eat_players
      by (cases "eat_balls c (pl_x p) (pl_y p) (pl_score p) (balls s) s")
         (auto simp: check_collisions_def Let_def)
  qed
qed

lemma nonneg_move_command: "scores_nonneg s \<Longrightarrow> after scores_nonneg (move_command c cmd s)"
proof -
  assume h: "scores_nonneg s"
  have m1: "scores_nonneg (s\<lparr>players := AList.map_entry c (\<lambda>p. p\<lparr>pl_x := x\<rparr>) (players s)\<rparr>)" for x
    using h by (rule nonneg_map_entry) simp
  have m2: "scores_nonneg (s\<lparr>players := AList.map_entry c (\<lambda>p. p\<lparr>pl_y := y\<rparr>)
      (AList.map_entry c (\<lambda>p. p\<lparr>pl_x := x\<rparr>) (players s))\<rparr>)" for x y
    using h unfolding scores_nonneg_def by (auto intro!: nn_map_entry)
  have body: "after scores_nonneg
      (case r of Returns _ s3 \<Rightarrow> replenish s3 | Raises e s3 \<Rightarrow> Raises e s3 | Pending \<Rightarrow> Pending)"
    if "after scores_nonneg r" for r :: "unit result"
    using that nonneg_replenish by (cases r) auto
  show ?thesis
    unfolding move_command_def Let_def
    using h m1 m2
    by (auto split: list.splits option.splits intro!: body nonneg_check_collisions nonneg_replenish)
qed

lemma nonneg_handle_command:
  assumes "scores_nonneg s"
  shows "after scores_nonneg (handle_command now c cmd s)"
proof -
  let ?s0 = "update_game_state now s"
  have h0: "scores_nonneg ?s0" using assms by (rule nonneg_update_game_state)
  have ms: "after scores_nonneg (msg_command c cmd ?s0)"
    using h0 by (auto simp: msg_command_def split: option.splits)
  have wrap: "after P (case r of Returns _ s' \<Rightarrow> Returns (snapshot_of s') s' | Raises e s' \<Rightarrow> Raises e s' | Pending \<Rightarrow> Pending)"
    if "after P r" for r :: "unit result" and P
    using that by (cases r) auto
  show ?thesis
    unfolding handle_command_def Let_def
    by (rule wrap) (use nonneg_move_command[OF h0] ms h0 in auto)
qed

lemma nonneg_step:
  assumes "scores_nonneg s" and "step e s = Some s'"
  shows "scores_nonneg s'"
proof (cases e)
  case (Accept now)
  then show ?thesis using assms nonneg_accept by auto
next
  case (Handshake c name)
  then show ?thesis
    using assms nonneg_handshake[OF assms(1), of c name]
    by (auto split: result.splits simp: nonneg_cleanup)
next
  case (Command now c cmd)
  then show ?thesis
    using assms nonneg_handle_command[OF assms(1), of now c cmd]
    by (auto split: result.splits simp: nonneg_cleanup)
next
  case (Disconnect c)
  then show ?thesis using assms by (auto simp: nonneg_cleanup)
qed

lemma nonneg_run:
  "scores_nonneg s \<Longrightarrow> run evs s = Some s' \<Longrightarrow> scores_nonneg s'"
proof (induction evs arbitrary: s)
  case Nil then show ?case by simp
next
  case (Cons e evs)
  then show ?case by (auto split: option.splits dest: nonneg_step)
qed

lemma nonneg_init: "scores_nonneg (init_server draws)"
  by (simp add: scores_nonneg_def init_server_def)

lemma heavy_ping_run:
  "run [Command 8 0 ''ping''] heavy
     = Some ((world [(0, mk_player 100 100 95 ''a'')] [] [])
              \<lparr>game_time := Seconds 8, next_mass_loss_tick := 2\<rparr>)"
proof -
  have "update_game_state 8 heavy = (world [(0, mk_player 100 100 95 ''a'')] [] [])
              \<lparr>game_time := Seconds 8, next_mass_loss_tick := 2\<rparr>"
    by (simp add: update_game_state_def heavy_def world_def init_server_def Let_def
        ROUND_TIME_def MASS_LOSS_TIME_def mass_loss_100)
  then show ?thesis
    by (simp add: handle_command_def startswith_def Let_def)
qed

text \<open>
  C9. Every operation that writes a score keeps all scores at or above 0: the insertion
  at the handshake (score 0), the food loop (plus 0.5), the loop body that merges the
  eater's score into a square root and resets the victim to 0, the resolver as a whole,
  the decay step of the clock update (the floor of 0.95 times a score above 8), a whole
  command, and therefore every run of the server. The state left behind by a call that
  raises is covered as well.
\<close>

theorem scores_never_negative:
  assumes "scores_nonneg s"
  shows "after scores_nonneg (handshake cid username s)
       \<and> after scores_nonneg (eat_balls cid px py p_score bs s)
       \<and> after scores_nonneg (eat_player cid px py p_score oid s)
       \<and> after scores_nonneg (check_collisions cid s)
       \<and> scores_nonneg (update_game_state now s)
       \<and> after scores_nonneg (handle_command now cid command s)
       \<and> (run evs s = Some s' \<longrightarrow> scores_nonneg s')"
  using assms
  by (intro conjI impI nonneg_handshake nonneg_eat_balls nonneg_eat_player
        nonneg_check_collisions nonneg_update_game_state nonneg_handle_command)
     (auto dest: nonneg_run)

theorem scores_never_negative_witness:
  "scores_nonneg heavy
   \<and> run [Command 8 0 ''ping''] heavy
       = Some ((world [(0, mk_player 100 100 95 ''a'')] [] [])
              \<lparr>game_time := Seconds 8, next_mass_loss_tick := 2\<rparr>)
   \<and> scores_nonneg ((world [(0, mk_player 100 100 95 ''a'')] [] [])
              \<lparr>game_time := Seconds 8, next_mass_loss_tick := 2\<rparr>)
   \<and> scores_nonneg (update_game_state 8 heavy)"
proof -
  have h: "scores_nonneg heavy"
    by (simp add: scores_nonneg_def heavy_def world_def mk_player_def)
  from scores_never_negative[OF h, of 0 "''a''" 0 0 0 "[]" 0 8 "''ping''" "[Command 8 0 ''ping'']"
      "(world [(0, mk_player 100 100 95 ''a'')] [] [])
              \<lparr>game_time := Seconds 8, next_mass_loss_tick := 2\<rparr>"]
  show ?thesis using h heavy_ping_run by simp
qed

subsection \<open>Food replenishment\<close>

lemma py_split_move: "py_split ''move 100 100'' = [''move'', ''100'', ''100'']"
  by (simp add: py_split_def is_space_def)

lemma py_int_100: "py_int ''100'' = Some 100"
  by (simp add: py_int_def unsigned_int_def is_digit_def digit_val_def)

text \<open>
  The intent returns as soon as its parts do: the command parses, the acting player is in
  the dictionary, the resolver (run only while the round is active) returns, and the
  top-up returns.
\<close>

lemma handle_move_returns:
  assumes "startswith cmd ''move''" "py_split cmd = [w, xs, ys]" "py_int xs = Some x"
    "py_int ys = Some y" "map_of (players (update_game_state now s)) c = Some p"
    "if game_started (update_game_state now s)
     then check_collisions c (moved c x y (update_game_state now s)) = Returns () s3
     else s3 = moved c x y (update_game_state now s)"
    "replenish s3 = Returns () s'"
  shows "handle_command now c cmd s = Returns (snapshot_of s') s'"
proof -
  let ?s0 = "update_game_state now s"
  have "move_command c cmd ?s0 = Returns () s'"
    unfolding move_command_unfold[OF assms(2,3,4,5)] using assms(6,7)
    by (cases "game_started ?s0") simp_all
  then show ?thesis using assms(1) by (simp add: handle_command_def Let_def)
qed










subsection \<open>Positions\<close>

text \<open>The test of line 152 on the product with the literal \<open>1.15\<close>, for scores that are integers.\<close>

lemma ratio_less:
  assumes "0 \<le> n" and "23 * n \<le> 20 * (m - 1)" and "m \<le> 2 ^ 52"
  shows "float_mul (of_int n) (fl 1.15) < of_int m"
proof -
  have c: "fl 1.15 \<le> 23 / 20" unfolding fl_literals by simp
  have "real_of_int n * fl 1.15 \<le> of_int n * (23 / 20)"
    using assms(1) c by (intro mult_left_mono) simp_all
  also have "\<dots> = of_int (23 * n) / 20" by simp
  also have "\<dots> \<le> of_int (20 * (m - 1)) / 20"
    using assms(2) by (simp only: divide_le_cancel of_int_le_iff) simp
  finally have le: "real_of_int n * fl 1.15 \<le> of_int (m - 1)" by simp
  have "0 \<le> fl 1.15" by (rule fl_nonneg) simp
  then have "0 \<le> real_of_int n * fl 1.15" using assms(1) by simp
  then have "float_mul (of_int n) (fl 1.15) \<le> of_int (m - 1)"
    unfolding float_mul_def using le by (rule fl_le_int) (use assms(3) in simp)
  then show ?thesis by simp
qed

lemma ratio_not_less:
  assumes "0 < m" and "1000 * m \<le> 1149 * n" and "m \<le> 2 ^ 52"
  shows "\<not> float_mul (of_int n) (fl 1.15) < of_int m"
proof -
  have c: "1149 / 1000 \<le> fl 1.15" unfolding fl_literals by simp
  have n: "0 \<le> n" using assms(1,2) by linarith
  have "real_of_int (1000 * m) / 1000 \<le> of_int (1149 * n) / 1000"
    using assms(2) by (simp only: divide_le_cancel of_int_le_iff) simp
  then have "real_of_int m \<le> of_int n * (1149 / 1000)" by simp
  also have "\<dots> \<le> of_int n * fl 1.15" using n c by (intro mult_left_mono) simp_all
  finally have "real_of_int m \<le> real_of_int n * fl 1.15" .
  then have "of_int m \<le> float_mul (of_int n) (fl 1.15)"
    unfolding float_mul_def using assms(1,3) by (rule fl_ge_int)
  then show ?thesis by simp
qed

lemma float_mul_0 [simp]: "float_mul 0 x = 0"
  by (simp add: float_mul_def)

lemma py_split_move_0: "py_split ''move 0 0'' = [''move'', ''0'', ''0'']"
  by (simp add: py_split_def is_space_def)

lemma py_int_0: "py_int ''0'' = Some 0"
  by (simp add: py_int_def unsigned_int_def is_digit_def digit_val_def)

lemma corner_spawn_run: "handshake 0 ''a'' (init_server [0, 0]) = Returns 0 corner_spawn"
  by (simp add: handshake_def add_chat_message_def get_start_location_def init_server_def
        Let_def randrange_def W_def H_def COLORS_def corner_spawn_def)

lemma corner_move_run:
  "move_command 0 ''move 0 0'' (world [(0, mk_player 100 100 0 ''a'')] (replicate 150 (500, 500, red)) [])
     = Returns () (world [(0, mk_player 0 0 0 ''a'')] (replicate 150 (500, 500, red)) [])"
proof -
  let ?s = "world [(0, mk_player 100 100 0 ''a'')] (replicate 150 (500, 500, red)) []"
  let ?t = "world [(0, mk_player 0 0 0 ''a'')] (replicate 150 (500, 500, red)) []"
  let ?q = "mk_player 0 0 0 ''a''"
  have q: "map_of (players ?t) 0 = Some ?q" by (simp add: world_def)
  have xy: "pl_x ?q = 0" "pl_y ?q = 0" "pl_score ?q = 0" by (simp_all add: mk_player_def)
  have f: "\<not> fl (sqrt 500000) \<le> 7" using fl_sqrt_ge[of 707 500000] by simp
  have far: "reach 0 0 0 (500, 500, red) = Some False"
    by (simp add: reach_def hypot_small float_add_def START_RADIUS_def f)
  have ok: "list_all (\<lambda>b. reach (pl_x ?q) (pl_y ?q) (pl_score ?q) b \<noteq> None) (balls ?t)"
    unfolding xy using far by (auto simp: world_def list_all_iff)
  have cc: "check_collisions 0 ?t = Returns () ?t"
    unfolding check_collisions_unfold[OF q ok] xy using far
    by (simp add: after_food_def world_def grow_def mk_player_def)
  have m: "moved 0 0 0 ?s = ?t" by (simp add: moved_def world_def mk_player_def)
  have r: "replenish ?t = Returns () ?t" by (simp add: replenish_def world_def)
  have g: "game_started ?s" "map_of (players ?s) 0 = Some (mk_player 100 100 0 ''a'')"
    by (simp_all add: world_def)
  show ?thesis
    unfolding move_command_unfold[OF py_split_move_0 py_int_0 py_int_0 g(2)] m
    using cc r g(1) by simp
qed

lemma edge_run: "check_collisions 0 edge_before = Returns () edge_after"
proof -
  let ?p = "mk_player 27 100 20 ''a''"
  have p: "map_of (players edge_before) 0 = Some ?p" by (simp add: edge_before_def world_def)
  have xy: "pl_x ?p = 27" "pl_y ?p = 100" "pl_score ?p = 20" by (simp_all add: mk_player_def)
  have ok: "list_all (\<lambda>b. reach (pl_x ?p) (pl_y ?p) (pl_score ?p) b \<noteq> None) (balls edge_before)"
    by (simp add: edge_before_def world_def)
  note d5 = fl_sqrt_exact[of 5, simplified]
  note t = ratio_less[of 10 20, simplified]
  note sq = float_pow2_small[of 20, simplified] float_pow2_small[of 10, simplified]
  have m23: "fl (sqrt 500) \<le> 23" using fl_sqrt_le[of 23 500] by simp
  have "7 + fl (sqrt 500) \<le> real_of_int 30" using m23 by simp
  moreover have "0 \<le> 7 + fl (sqrt 500)" using fl_nonneg[of "sqrt 500"] by simp
  ultimately have "fl (7 + fl (sqrt 500)) \<le> real_of_int 30" by (intro fl_le_int) simp_all
  moreover have "103 \<le> fl (sqrt 10729)" using fl_sqrt_ge[of 103 10729] by simp
  ultimately have far1: "\<not> fl (sqrt 10729) \<le> fl (7 + fl (sqrt 500))" by simp
  have far2: "\<not> fl (sqrt 11024) \<le> 7" using fl_sqrt_ge[of 104 11024] by simp
  show ?thesis
    unfolding check_collisions_unfold[OF p ok] xy
    by (simp add: after_food_def edge_before_def edge_after_def world_def mk_player_def
        init_server_def Let_def eat_player_def hypot_small float_add_def math_sqrt_def
        START_RADIUS_def get_start_location_def randrange_def W_def H_def grow_def
        d5 t sq far1 far2)
qed

lemma crowded_places:
  "rejects (players crowded) [(0, 0)]" "safe_at (players crowded) (400, 400) = Inr True"
proof -
  have far: "\<not> fl (sqrt 320000) \<le> 7" using fl_sqrt_ge[of 565 320000] by simp
  show "rejects (players crowded) [(0, 0)]"
    by (simp add: rejects_def safe_at_def candidate_def crowded_def corner_spawn_def
          randrange_def W_def H_def hypot_small float_add_def START_RADIUS_def)
  show "safe_at (players crowded) (400, 400) = Inr True"
    by (simp add: safe_at_def candidate_def crowded_def corner_spawn_def
          randrange_def W_def H_def hypot_small float_add_def START_RADIUS_def far)
qed

text \<open>
  C5 (as amended). The server places players inside the world but keeps no margin: a
  spawn puts the new player, with score 0, at an integer point of
  \<open>[0, W - 1] \<times> [0, H - 1]\<close> that the test of the code found safe from the players
  present; a move intent that returns leaves the acting player at exactly the coordinates
  sent; the resolver leaves the acting player where it stands, and every other player
  either untouched or with score 0 at an integer point of \<open>[0, W - 1] \<times> [0, H - 1]\<close>.
  The sampling of a location returns the first candidate drawn that is safe, after the
  candidates it rejects, and so does the handshake, with the new player there.
\<close>

theorem positions_in_world:
  "(handshake cid username sa = Returns v sa' \<longrightarrow>
      (\<exists>p. map_of (players sa') cid = Some p \<and> 0 \<le> pl_x p \<and> pl_x p < W \<and>
           0 \<le> pl_y p \<and> pl_y p < H \<and> pl_score p = 0 \<and>
           is_safe_location (pl_x p) (pl_y p) (players sa) = Inr True))
   \<and> (move_command cid command sb = Returns () sb' \<and> py_split command = [w, xs, ys] \<and>
       py_int xs = Some x \<and> py_int ys = Some y \<longrightarrow>
      (\<exists>p. map_of (players sb') cid = Some p \<and> pl_x p = x \<and> pl_y p = y))
   \<and> (map_of (players sc) cid = Some a \<and> check_collisions cid sc = Returns () sc' \<and>
       oid \<noteq> cid \<and> map_of (players sc) oid = Some other \<longrightarrow>
      (\<exists>a' other'. map_of (players sc') cid = Some a' \<and> pl_x a' = pl_x a \<and> pl_y a' = pl_y a \<and>
         map_of (players sc') oid = Some other' \<and>
         (other' = other \<or>
          (other' = other\<lparr>pl_score := 0, pl_x := pl_x other', pl_y := pl_y other'\<rparr> \<and>
           0 \<le> pl_x other' \<and> pl_x other' < W \<and> 0 \<le> pl_y other' \<and> pl_y other' < H))))
   \<and> (rand sd = pairs cs @ fst c # snd c # rest \<and> rejects (players sd) cs \<and>
       safe_at (players sd) c = Inr True \<longrightarrow>
       get_start_location sd = Returns (candidate c) (sd\<lparr>rand := rest\<rparr>) \<and>
       handshake cid username sd =
         Returns cid ((add_chat_message (username @ '' CONNECTED'') sd)\<lparr>rand := rest,
           players := AList.update cid
             \<lparr>pl_x = fst (candidate c), pl_y = snd (candidate c),
              pl_color = COLORS ! (cid mod length COLORS), pl_score = 0, pl_name = username\<rparr>
             (players sd)\<rparr>))"
proof (intro conjI impI)
  assume "handshake cid username sa = Returns v sa'"
  from handshake_Returns[OF this]
  show "\<exists>p. map_of (players sa') cid = Some p \<and> 0 \<le> pl_x p \<and> pl_x p < W \<and>
           0 \<le> pl_y p \<and> pl_y p < H \<and> pl_score p = 0 \<and>
           is_safe_location (pl_x p) (pl_y p) (players sa) = Inr True"
    by (simp add: in_world_def)
next
  assume "move_command cid command sb = Returns () sb' \<and> py_split command = [w, xs, ys] \<and>
       py_int xs = Some x \<and> py_int ys = Some y"
  then show "\<exists>p. map_of (players sb') cid = Some p \<and> pl_x p = x \<and> pl_y p = y"
    using move_command_pos by blast
next
  assume h: "map_of (players sc) cid = Some a \<and> check_collisions cid sc = Returns () sc' \<and>
       oid \<noteq> cid \<and> map_of (players sc) oid = Some other"
  then have cc: "check_collisions cid sc = Returns () sc'" and a: "map_of (players sc) cid = Some a"
    by simp_all
  from check_collisions_sound[OF cc a, of oid other] h obtain u other' where
    a': "map_of (players sc') cid = Some (a\<lparr>pl_score := u\<rparr>)"
    and o': "map_of (players sc') oid = Some other'" "kept_or_moved other other'"
    by blast
  show "\<exists>a' other'. map_of (players sc') cid = Some a' \<and> pl_x a' = pl_x a \<and> pl_y a' = pl_y a \<and>
         map_of (players sc') oid = Some other' \<and>
         (other' = other \<or>
          (other' = other\<lparr>pl_score := 0, pl_x := pl_x other', pl_y := pl_y other'\<rparr> \<and>
           0 \<le> pl_x other' \<and> pl_x other' < W \<and> 0 \<le> pl_y other' \<and> pl_y other' < H))"
    using a' o'
    by - (rule exI[of _ "a\<lparr>pl_score := u\<rparr>"], rule exI[of _ other'],
          simp add: kept_or_moved_def in_world_def)
next
  assume h: "rand sd = pairs cs @ fst c # snd c # rest \<and> rejects (players sd) cs \<and>
       safe_at (players sd) c = Inr True"
  then show "get_start_location sd = Returns (candidate c) (sd\<lparr>rand := rest\<rparr>)"
    using get_start_location_accepts[of sd cs c rest] by blast
  from h show "handshake cid username sd =
         Returns cid ((add_chat_message (username @ '' CONNECTED'') sd)\<lparr>rand := rest,
           players := AList.update cid
             \<lparr>pl_x = fst (candidate c), pl_y = snd (candidate c),
              pl_color = COLORS ! (cid mod length COLORS), pl_score = 0, pl_name = username\<rparr>
             (players sd)\<rparr>)"
    using handshake_accepts[of sd cs c rest cid username] by blast
qed

theorem positions_in_world_witness:
  "handshake 0 ''a'' (init_server [0, 0]) = Returns 0 corner_spawn
   \<and> (\<exists>p. map_of (players corner_spawn) 0 = Some p \<and> 0 \<le> pl_x p \<and> pl_x p < W \<and>
           0 \<le> pl_y p \<and> pl_y p < H \<and> pl_score p = 0)
   \<and> move_command 0 ''move 0 0''
         (world [(0, mk_player 100 100 0 ''a'')] (replicate 150 (500, 500, red)) [])
       = Returns () (world [(0, mk_player 0 0 0 ''a'')] (replicate 150 (500, 500, red)) [])
   \<and> py_split ''move 0 0'' = [''move'', ''0'', ''0''] \<and> py_int ''0'' = Some 0
   \<and> (\<exists>p. map_of (players (world [(0, mk_player 0 0 0 ''a'')] (replicate 150 (500, 500, red)) [])) 0
             = Some p \<and> pl_x p = 0 \<and> pl_y p = 0)
   \<and> map_of (players edge_before) 0 = Some (mk_player 27 100 20 ''a'')
   \<and> map_of (players edge_before) 1 = Some (mk_player 32 100 10 ''b'')
   \<and> check_collisions 0 edge_before = Returns () edge_after
   \<and> (\<exists>a' other'. map_of (players edge_after) 0 = Some a' \<and> pl_x a' = 27 \<and> pl_y a' = 100 \<and>
         map_of (players edge_after) 1 = Some other' \<and>
         0 \<le> pl_x other' \<and> pl_x other' < W \<and> 0 \<le> pl_y other' \<and> pl_y other' < H)
   \<and> rand crowded = pairs [(0, 0)] @ [400, 400]
   \<and> rejects (players crowded) [(0, 0)] \<and> safe_at (players crowded) (400, 400) = Inr True
   \<and> get_start_location crowded = Returns (400, 400) (crowded\<lparr>rand := []\<rparr>)
   \<and> handshake 1 ''b'' crowded = Returns 1 crowded_after"
proof -
  let ?m = "world [(0, mk_player 100 100 0 ''a'')] (replicate 150 (500::int, 500::int, red)) []"
  let ?m' = "world [(0, mk_player 0 0 0 ''a'')] (replicate 150 (500::int, 500::int, red)) []"
  have d: "(1::nat) \<noteq> 0" by simp
  have a: "map_of (players edge_before) 0 = Some (mk_player 27 100 20 ''a'')"
    and o: "map_of (players edge_before) 1 = Some (mk_player 32 100 10 ''b'')"
    by (simp_all add: edge_before_def world_def)
  have r: "rand crowded = pairs [(0, 0)] @ [400, 400]" by (simp add: crowded_def pairs_def)
  have 1: "\<exists>p. map_of (players corner_spawn) 0 = Some p \<and> 0 \<le> pl_x p \<and> pl_x p < W \<and>
           0 \<le> pl_y p \<and> pl_y p < H \<and> pl_score p = 0"
    using positions_in_world[where cid = 0 and username = "''a''" and sa = "init_server [0, 0]"
        and v = 0 and sa' = corner_spawn, THEN conjunct1, THEN mp, OF corner_spawn_run]
    by blast
  have 2: "\<exists>p. map_of (players ?m') 0 = Some p \<and> pl_x p = 0 \<and> pl_y p = 0"
    using positions_in_world[where cid = 0 and command = "''move 0 0''" and sb = ?m and sb' = ?m'
        and w = "''move''" and xs = "''0''" and ys = "''0''" and x = 0 and y = 0,
        THEN conjunct2, THEN conjunct1, THEN mp]
      corner_move_run py_split_move_0 py_int_0
    by blast
  have "\<exists>a' other'. map_of (players edge_after) 0 = Some a' \<and>
         pl_x a' = pl_x (mk_player 27 100 20 ''a'') \<and> pl_y a' = pl_y (mk_player 27 100 20 ''a'') \<and>
         map_of (players edge_after) 1 = Some other' \<and>
         (other' = mk_player 32 100 10 ''b'' \<or>
          (other' = (mk_player 32 100 10 ''b'')\<lparr>pl_score := 0, pl_x := pl_x other', pl_y := pl_y other'\<rparr> \<and>
           0 \<le> pl_x other' \<and> pl_x other' < W \<and> 0 \<le> pl_y other' \<and> pl_y other' < H))"
    using positions_in_world[where cid = 0 and sc = edge_before and sc' = edge_after
        and a = "mk_player 27 100 20 ''a''" and oid = 1 and other = "mk_player 32 100 10 ''b''",
        THEN conjunct2, THEN conjunct2, THEN conjunct1, THEN mp]
      a o edge_run d
    by blast
  then have 3: "\<exists>a' other'. map_of (players edge_after) 0 = Some a' \<and> pl_x a' = 27 \<and> pl_y a' = 100 \<and>
         map_of (players edge_after) 1 = Some other' \<and>
         0 \<le> pl_x other' \<and> pl_x other' < W \<and> 0 \<le> pl_y other' \<and> pl_y other' < H"
    by (simp add: edge_after_def world_def mk_player_def W_def H_def)
  note th4 = positions_in_world[where cid = 1 and username = "''b''" and sd = crowded
        and cs = "[(0, 0)]" and c = "(400, 400)" and rest = "[]",
        THEN conjunct2, THEN conjunct2, THEN conjunct2, THEN mp]
  have h4: "rand crowded = pairs [(0, 0)] @ fst (400::nat, 400::nat) # snd (400::nat, 400::nat) # [] \<and>
      rejects (players crowded) [(0, 0)] \<and> safe_at (players crowded) (400, 400) = Inr True"
    using r crowded_places by simp
  have 4: "get_start_location crowded = Returns (400, 400) (crowded\<lparr>rand := []\<rparr>)"
    using th4[OF h4, THEN conjunct1]
    by (simp add: candidate_def randrange_def W_def H_def)
  have 5: "handshake 1 ''b'' crowded = Returns 1 crowded_after"
    using th4[OF h4, THEN conjunct2]
    by (simp add: candidate_def randrange_def W_def H_def crowded_def crowded_after_def
          corner_spawn_def add_chat_message_def COLORS_def)
  show ?thesis
    by (intro conjI corner_spawn_run 1 corner_move_run py_split_move_0 py_int_0 2 a o edge_run 3
          r crowded_places 4 5)
qed

text \<open>
  The margin is lost at a spawn in the corner, at a move to the corner (the first command
  a client sends is \<open>move 0 0\<close>), and in the resolver: an eater standing exactly at its
  margin grows past it without moving, and its victim is moved to the corner.
\<close>

theorem margin_not_kept:
  "handshake 0 ''a'' (init_server [0, 0]) = Returns 0 corner_spawn
   \<and> map_of (players corner_spawn) 0
       = Some \<lparr>pl_x = 0, pl_y = 0, pl_color = (255, 0, 0), pl_score = 0, pl_name = ''a''\<rparr>
   \<and> \<not> within_margin \<lparr>pl_x = 0, pl_y = 0, pl_color = (255, 0, 0), pl_score = 0, pl_name = ''a''\<rparr>
   \<and> move_command 0 ''move 0 0''
         (world [(0, mk_player 100 100 0 ''a'')] (replicate 150 (500, 500, red)) [])
       = Returns () (world [(0, mk_player 0 0 0 ''a'')] (replicate 150 (500, 500, red)) [])
   \<and> within_margin (mk_player 100 100 0 ''a'') \<and> \<not> within_margin (mk_player 0 0 0 ''a'')
   \<and> check_collisions 0 edge_before = Returns () edge_after
   \<and> within_margin (mk_player 27 100 20 ''a'') \<and> within_margin (mk_player 32 100 10 ''b'')
   \<and> \<not> within_margin (mk_player 27 100 (fl (sqrt 500)) ''a'')
   \<and> \<not> within_margin (mk_player 0 0 0 ''b'')"
proof -
  have m: "within_margin (mk_player 100 100 0 ''a'')" "\<not> within_margin (mk_player 0 0 0 ''a'')"
    "within_margin (mk_player 27 100 20 ''a'')" "within_margin (mk_player 32 100 10 ''b'')"
    "\<not> within_margin (mk_player 0 0 0 ''b'')"
    "\<not> within_margin \<lparr>pl_x = 0, pl_y = 0, pl_color = (255, 0, 0), pl_score = 0, pl_name = ''a''\<rparr>"
    by (simp_all add: within_margin_def mk_player_def START_RADIUS_def W_def H_def)
  have "22 \<le> fl (sqrt 500)" using fl_sqrt_ge[of 22 500] by simp
  then have g: "\<not> within_margin (mk_player 27 100 (fl (sqrt 500)) ''a'')"
    by (simp add: within_margin_def mk_player_def START_RADIUS_def)
  have c: "map_of (players corner_spawn) 0
       = Some \<lparr>pl_x = 0, pl_y = 0, pl_color = (255, 0, 0), pl_score = 0, pl_name = ''a''\<rparr>"
    by (simp add: corner_spawn_def)
  show ?thesis
    by (intro conjI corner_spawn_run c m corner_move_run edge_run g)
qed

subsection \<open>Eating, at the inputs where the score read on entry is out of date\<close>

lemma exact_distances:
  "fl (sqrt 25) = 5" "fl (sqrt 225) = 15" "fl (sqrt 250000) = 500" "fl (sqrt 245025) = 495"
  "fl (sqrt 265225) = 515" "fl (sqrt 260100) = 510"
  using fl_sqrt_exact[of 5] fl_sqrt_exact[of 15] fl_sqrt_exact[of 500] fl_sqrt_exact[of 495]
    fl_sqrt_exact[of 515] fl_sqrt_exact[of 510]
  by simp_all

lemma exact_merges:
  "fl (sqrt 2500) = 50" "fl (sqrt 1681) = 41" "fl (sqrt 900) = 30" "fl (sqrt 676) = 26"
  using fl_sqrt_exact[of 50] fl_sqrt_exact[of 41] fl_sqrt_exact[of 30] fl_sqrt_exact[of 26]
  by simp_all

lemma exact_squares:
  "float_pow2 40 = Some 1600" "float_pow2 30 = Some 900" "float_pow2 9 = Some 81"
  "float_pow2 24 = Some 576" "float_pow2 18 = Some 324" "float_pow2 10 = Some 100"
  using float_pow2_small[of 40] float_pow2_small[of 30] float_pow2_small[of 9]
    float_pow2_small[of 24] float_pow2_small[of 18] float_pow2_small[of 10]
  by simp_all

lemma ratio_tests:
  "float_mul 30 (fl 1.15) < 40" "float_mul 9 (fl 1.15) < 40"
  "float_mul 18 (fl 1.15) < 24" "float_mul 10 (fl 1.15) < 24"
  "\<not> float_mul 21 (fl 1.15) < 24" "float_mul 21 (fl 1.15) < 26"
  using ratio_less[of 30 40] ratio_less[of 9 40] ratio_less[of 18 24] ratio_less[of 10 24]
    ratio_not_less[of 24 21] ratio_less[of 21 26]
  by simp_all

lemma far_food:
  "reach 100 100 40 (400, 500, red) = Some False" "reach 100 100 24 (400, 500, red) = Some False"
  "reach 100 100 40 (100, 100, red) = Some True"
  by (simp_all add: reach_def hypot_small float_add_def START_RADIUS_def exact_distances)

lemma feast_collisions:
  "check_collisions 0 (moved 0 100 100 (feast\<lparr>game_time := Seconds 1\<rparr>)) = Returns () feast_after"
proof -
  let ?s = "moved 0 100 100 (feast\<lparr>game_time := Seconds 1\<rparr>)"
  let ?p = "mk_player 100 100 40 ''a''"
  have p: "map_of (players ?s) 0 = Some ?p"
    by (simp add: moved_def feast_def world_def mk_player_def)
  have xy: "pl_x ?p = 100" "pl_y ?p = 100" "pl_score ?p = 40" by (simp_all add: mk_player_def)
  have ok: "list_all (\<lambda>b. reach (pl_x ?p) (pl_y ?p) (pl_score ?p) b \<noteq> None) (balls ?s)"
    unfolding xy using far_food by (auto simp: feast_def world_def list_all_iff)
  show ?thesis
    unfolding check_collisions_unfold[OF p ok] xy
    using far_food
    by (simp add: after_food_def moved_def feast_def feast_after_def world_def mk_player_def
        init_server_def Let_def eat_player_def hypot_small float_add_def math_sqrt_def
        START_RADIUS_def get_start_location_def randrange_def W_def H_def grow_def
        exact_distances exact_merges exact_squares ratio_tests[simplified])
qed

lemma banquet_collisions:
  "check_collisions 0 (moved 0 100 100 (banquet\<lparr>game_time := Seconds 1\<rparr>)) = Returns () banquet_after"
proof -
  let ?s = "moved 0 100 100 (banquet\<lparr>game_time := Seconds 1\<rparr>)"
  let ?p = "mk_player 100 100 24 ''a''"
  have p: "map_of (players ?s) 0 = Some ?p"
    by (simp add: moved_def banquet_def world_def mk_player_def)
  have xy: "pl_x ?p = 100" "pl_y ?p = 100" "pl_score ?p = 24" by (simp_all add: mk_player_def)
  have ok: "list_all (\<lambda>b. reach (pl_x ?p) (pl_y ?p) (pl_score ?p) b \<noteq> None) (balls ?s)"
    unfolding xy using far_food by (auto simp: banquet_def world_def list_all_iff)
  show ?thesis
    unfolding check_collisions_unfold[OF p ok] xy
    using far_food
    by (simp add: after_food_def moved_def banquet_def banquet_after_def world_def mk_player_def
        init_server_def Let_def eat_player_def hypot_small float_add_def math_sqrt_def
        START_RADIUS_def get_start_location_def randrange_def W_def H_def grow_def
        exact_distances exact_merges exact_squares ratio_tests[simplified])
qed

lemma lunch_food:
  "after_food 0 (mk_player 100 100 40 ''a'') (moved 0 100 100 (lunch\<lparr>game_time := Seconds 1\<rparr>))
     = (world [(0, mk_player 100 100 41 ''a''), (1, mk_player 103 104 30 ''b'')]
          (replicate 150 (400, 500, red)) [400, 500])\<lparr>game_time := Seconds 1\<rparr>"
proof -
  have g: "grow (Suc (Suc 0)) 40 = 41" using grow_half[of 80 2] by (simp add: numeral_2_eq_2)
  show ?thesis
    using far_food
    by (simp add: after_food_def moved_def lunch_def world_def mk_player_def init_server_def g)
qed

lemma lunch_collisions:
  "check_collisions 0 (moved 0 100 100 (lunch\<lparr>game_time := Seconds 1\<rparr>)) = Returns () lunch_after"
proof -
  let ?s = "moved 0 100 100 (lunch\<lparr>game_time := Seconds 1\<rparr>)"
  let ?p = "mk_player 100 100 40 ''a''"
  have p: "map_of (players ?s) 0 = Some ?p"
    by (simp add: moved_def lunch_def world_def mk_player_def)
  have xy: "pl_x ?p = 100" "pl_y ?p = 100" "pl_score ?p = 40" by (simp_all add: mk_player_def)
  have ok: "list_all (\<lambda>b. reach (pl_x ?p) (pl_y ?p) (pl_score ?p) b \<noteq> None) (balls ?s)"
    unfolding xy using far_food by (auto simp: lunch_def world_def list_all_iff)
  have ks: "map fst (players ?s) = [0, 1]" by (simp add: lunch_def world_def)
  show ?thesis
    unfolding check_collisions_unfold[OF p ok] lunch_food ks xy
    by (simp add: lunch_after_def world_def mk_player_def
        init_server_def Let_def eat_player_def hypot_small float_add_def math_sqrt_def
        START_RADIUS_def get_start_location_def randrange_def W_def H_def
        exact_distances exact_merges exact_squares ratio_tests[simplified])
qed

lemma intent_at_1:
  assumes "game_started s" "start_time s = 0" "next_mass_loss_tick s = 1"
    and "map_of (players s) 0 = Some p"
    and "check_collisions 0 (moved 0 100 100 (s\<lparr>game_time := Seconds 1\<rparr>)) = Returns () s'"
    and "150 \<le> length (balls s')"
  shows "handle_command 1 0 ''move 100 100'' s = Returns (snapshot_of s') s'"
proof -
  have u: "update_game_state 1 s = s\<lparr>game_time := Seconds 1\<rparr>"
    using assms(1,2,3) by (simp add: update_game_state_def Let_def ROUND_TIME_def MASS_LOSS_TIME_def)
  show ?thesis
  proof (rule handle_move_returns[OF _ py_split_move py_int_100 py_int_100])
    show "startswith ''move 100 100'' ''move''" by (simp add: startswith_def)
    show "map_of (players (update_game_state 1 s)) 0 = Some p" unfolding u using assms(4) by simp
    show "if game_started (update_game_state 1 s)
      then check_collisions 0 (moved 0 100 100 (update_game_state 1 s)) = Returns () s'
      else s' = moved 0 100 100 (update_game_state 1 s)"
      unfolding u using assms(1,5) by simp
    show "replenish s' = Returns () s'" using assms(6) by (simp add: replenish_def)
  qed
qed

text \<open>
  The example of the specification, with one other player: the eater of score 20 at
  (100, 100), the other player of score 10 at (105, 100). The eater is left with the
  double of \<open>sqrt 500\<close>, the other player with score 0 at the candidate drawn.
\<close>

lemma spec_example_run:
  "handle_command 1 0 ''move 100 100'' duel
     = Returns (replicate 150 (400, 500, red),
                [(0, mk_player 100 100 (fl (sqrt 500)) ''a''), (1, mk_player 400 500 0 ''b'')],
                Seconds 1, [])
         duel_after"
proof -
  let ?s = "moved 0 100 100 (duel\<lparr>game_time := Seconds 1\<rparr>)"
  let ?p = "mk_player 100 100 20 ''a''"
  have p: "map_of (players ?s) 0 = Some ?p"
    by (simp add: moved_def duel_def world_def mk_player_def)
  have xy: "pl_x ?p = 100" "pl_y ?p = 100" "pl_score ?p = 20" by (simp_all add: mk_player_def)
  have far: "reach 100 100 20 (400, 500, red) = Some False"
    by (simp add: reach_def hypot_small float_add_def START_RADIUS_def exact_distances)
  have ok: "list_all (\<lambda>b. reach (pl_x ?p) (pl_y ?p) (pl_score ?p) b \<noteq> None) (balls ?s)"
    unfolding xy using far by (auto simp: duel_def world_def list_all_iff)
  note t = ratio_less[of 10 20, simplified]
  note sq = float_pow2_small[of 20, simplified] float_pow2_small[of 10, simplified]
  have "fl (sqrt 500) \<le> 23" using fl_sqrt_le[of 23 500] by simp
  then have "7 + fl (sqrt 500) \<le> real_of_int 30" by simp
  moreover have "0 \<le> 7 + fl (sqrt 500)" using fl_nonneg[of "sqrt 500"] by simp
  ultimately have "fl (7 + fl (sqrt 500)) \<le> real_of_int 30" by (intro fl_le_int) simp_all
  then have far1: "\<not> 500 \<le> fl (7 + fl (sqrt 500))" by simp
  have far2: "\<not> fl (sqrt 247025) \<le> 7" using fl_sqrt_ge[of 497 247025] by simp
  have cc: "check_collisions 0 ?s = Returns () duel_after"
    unfolding check_collisions_unfold[OF p ok] xy
    using far
    by (simp add: after_food_def moved_def duel_def duel_after_def world_def mk_player_def
        init_server_def Let_def eat_player_def hypot_small float_add_def math_sqrt_def
        START_RADIUS_def get_start_location_def randrange_def W_def H_def grow_def
        exact_distances t sq far1 far2)
  have "handle_command 1 0 ''move 100 100'' duel = Returns (snapshot_of duel_after) duel_after"
    by (rule intent_at_1[OF _ _ _ _ cc])
       (simp_all add: duel_def duel_after_def world_def init_server_def)
  then show ?thesis
    by (simp add: snapshot_of_def duel_after_def world_def init_server_def)
qed

text \<open>
  C1, the code at the failing input. The acting player, of score 40, moves next to two
  players of score 30 and 9, in this order in the dictionary. Both are eaten, reset to 0
  and moved to the candidates drawn. The merge with the first gives
  \<open>sqrt (40\<^sup>2 + 30\<^sup>2) = 50\<close>; the merge with the second is computed from the score read on
  entry, \<open>sqrt (40\<^sup>2 + 9\<^sup>2) = 41\<close>, and overwrites it: the intent leaves the eater with 41,
  less than it had after the first victim.
\<close>

theorem second_victim_overwrites:
  "handle_command 1 0 ''move 100 100'' feast
     = Returns (replicate 150 (400, 500, red),
                [(0, mk_player 100 100 41 ''a''), (1, mk_player 400 500 0 ''b''),
                 (2, mk_player 409 512 0 ''c'')],
                Seconds 1, [])
         feast_after
   \<and> map_of (players feast_after) 0 = Some (mk_player 100 100 41 ''a'')
   \<and> float_pow2 40 = Some 1600 \<and> float_pow2 30 = Some 900 \<and> float_pow2 9 = Some 81
   \<and> math_sqrt (float_add 1600 900) = 50 \<and> math_sqrt (float_add 1600 81) = 41"
proof -
  have "handle_command 1 0 ''move 100 100'' feast = Returns (snapshot_of feast_after) feast_after"
    by (rule intent_at_1[OF _ _ _ _ feast_collisions])
       (simp_all add: feast_def feast_after_def world_def init_server_def)
  then show ?thesis
    by (simp add: snapshot_of_def feast_after_def world_def init_server_def exact_squares
          float_add_def math_sqrt_def exact_merges)
qed

text \<open>
  C2, the code at the failing input. The acting player, of score 24, moves next to three
  players of score 18, 10 and 21. The first two are eaten; after the first the eater's
  score is 30, yet the merge with the second is \<open>sqrt (24\<^sup>2 + 10\<^sup>2) = 26\<close>, and the third
  is spared although 1.15 times its score is below 26, the eater's score at that check:
  the test and the merge use 24, the score read before the loops.
\<close>

theorem stale_score_used:
  "handle_command 1 0 ''move 100 100'' banquet
     = Returns (replicate 150 (400, 500, red),
                [(0, mk_player 100 100 26 ''a''), (1, mk_player 400 500 0 ''b''),
                 (2, mk_player 409 512 0 ''c''), (3, mk_player 103 104 21 ''d'')],
                Seconds 1, [])
         banquet_after
   \<and> map_of (players banquet_after) 0 = Some (mk_player 100 100 26 ''a'')
   \<and> map_of (players banquet_after) 3 = map_of (players banquet) 3
   \<and> float_mul 21 (fl 1.15) < 26
   \<and> hypot (100 - 103) (100 - 104) = Some 5 \<and> 5 < float_add START_RADIUS 26"
proof -
  have "handle_command 1 0 ''move 100 100'' banquet = Returns (snapshot_of banquet_after) banquet_after"
    by (rule intent_at_1[OF _ _ _ _ banquet_collisions])
       (simp_all add: banquet_def banquet_after_def world_def init_server_def)
  then show ?thesis
    using ratio_tests(6)
    by (simp add: snapshot_of_def banquet_def banquet_after_def world_def init_server_def
          hypot_small exact_distances float_add_def START_RADIUS_def)
qed

text \<open>
  C3, the code at the failing input. The acting player, of score 40, moves onto two food
  items, next to a player of score 30. The food loop removes the two items and raises the
  score to 41; the player loop then eats the other player and assigns
  \<open>sqrt (40\<^sup>2 + 30\<^sup>2) = 50\<close>, computed from the score read on entry: the intent leaves the
  score it would leave without any food, and the two increments of 0.5 are lost.
\<close>

theorem food_gain_overwritten:
  "handle_command 1 0 ''move 100 100'' lunch
     = Returns (replicate 150 (400, 500, red),
                [(0, mk_player 100 100 50 ''a''), (1, mk_player 400 500 0 ''b'')],
                Seconds 1, [])
         lunch_after
   \<and> length (balls lunch) = 152 \<and> length (balls lunch_after) = 150
   \<and> eat_balls 0 100 100 40 (balls lunch) (moved 0 100 100 (lunch\<lparr>game_time := Seconds 1\<rparr>))
       = Returns ()
           ((world [(0, mk_player 100 100 41 ''a''), (1, mk_player 103 104 30 ''b'')]
               (replicate 150 (400, 500, red)) [400, 500])\<lparr>game_time := Seconds 1\<rparr>)
   \<and> map_of (players lunch_after) 0 = Some (mk_player 100 100 50 ''a'')
   \<and> float_pow2 40 = Some 1600 \<and> float_pow2 30 = Some 900
   \<and> math_sqrt (float_add 1600 900) = 50"
proof -
  let ?s = "moved 0 100 100 (lunch\<lparr>game_time := Seconds 1\<rparr>)"
  let ?p = "mk_player 100 100 40 ''a''"
  have run: "handle_command 1 0 ''move 100 100'' lunch = Returns (snapshot_of lunch_after) lunch_after"
    by (rule intent_at_1[OF _ _ _ _ lunch_collisions])
       (simp_all add: lunch_def lunch_after_def world_def init_server_def)
  have xy: "pl_x ?p = 100" "pl_y ?p = 100" "pl_score ?p = 40" by (simp_all add: mk_player_def)
  have ok: "list_all (\<lambda>b. reach (pl_x ?p) (pl_y ?p) (pl_score ?p) b \<noteq> None) (balls ?s)"
    unfolding xy using far_food by (auto simp: lunch_def world_def list_all_iff)
  have b: "balls ?s = balls lunch" by simp
  have food: "eat_balls 0 100 100 40 (balls lunch) ?s
       = Returns ()
           ((world [(0, mk_player 100 100 41 ''a''), (1, mk_player 103 104 30 ''b'')]
               (replicate 150 (400, 500, red)) [400, 500])\<lparr>game_time := Seconds 1\<rparr>)"
    using eat_balls_all[OF ok, of 0] unfolding xy b lunch_food .
  show ?thesis
    using run food
    by (simp add: snapshot_of_def lunch_def lunch_after_def world_def init_server_def
          exact_squares float_add_def math_sqrt_def exact_merges)
qed

end
